theory Spec2Isabelle
  imports Main
begin

section \<open>Strings and exceptions\<close>

text \<open>
  A Python \<^verbatim>\<open>str\<close> is a sequence of characters (code points), and the program
  reads two properties of a character from the Unicode database, which is not part of
  the repository: whether it is a decimal digit, with its value (the class \<^verbatim>\<open>\d\<close> of
  the \<^verbatim>\<open>re\<close> module and \<^verbatim>\<open>int\<close> read this), and whether it is a digit in the
  wider sense of \<^verbatim>\<open>str.isdigit\<close> (numeric type Digit or Decimal).

  A character below U+0100 is \<open>L c\<close>, with \<open>ord c\<close> its code point; there the two
  properties are known: the decimal digits are the ten ASCII digits, and
  \<^verbatim>\<open>str.isdigit\<close> holds for these and for the superscripts U+00B2, U+00B3 and U+00B9.
  A character from U+0100 on is given with its code point and with what the database
  says about it: \<open>Nd cp v\<close> is a decimal digit of value \<open>v\<close> (as U+0661, the
  Arabic-Indic digit one, is \<open>Nd 0x661 1\<close>), \<open>Dg cp\<close> a digit that is not a decimal
  digit (as U+2460, the circled digit one), \<open>Ot cp\<close> any other character. \<open>lit\<close>
  turns a string literal of the source into such a string. The theorems below hold for
  every string of this type, so for every string of Python, whatever the database says
  about its characters from U+0100 on.
\<close>

datatype uchar = L char | Nd nat nat | Dg nat | Ot nat

type_synonym ustring = "uchar list"

definition lit :: "string \<Rightarrow> ustring" where
  "lit s = map L s"

definition ord :: "char \<Rightarrow> nat" where
  "ord c = of_char c"

definition is_ascii :: "uchar \<Rightarrow> bool" where
  "is_ascii x = (case x of L c \<Rightarrow> ord c < 128 | _ \<Rightarrow> False)"

definition in_range :: "char \<Rightarrow> char \<Rightarrow> uchar \<Rightarrow> bool" where
  "in_range a b x = (case x of L c \<Rightarrow> ord a \<le> ord c \<and> ord c \<le> ord b | _ \<Rightarrow> False)"

definition ascii_digit :: "uchar \<Rightarrow> bool" where
  "ascii_digit x = in_range CHR ''0'' CHR ''9'' x"

definition isdecimal_char :: "uchar \<Rightarrow> bool" where
  "isdecimal_char x =
     (case x of L c \<Rightarrow> 48 \<le> ord c \<and> ord c \<le> 57 | Nd cp v \<Rightarrow> True | Dg cp \<Rightarrow> False
      | Ot cp \<Rightarrow> False)"

definition isdigit_char :: "uchar \<Rightarrow> bool" where
  "isdigit_char x =
     (case x of
        L c \<Rightarrow> (48 \<le> ord c \<and> ord c \<le> 57) \<or> ord c = 178 \<or> ord c = 179 \<or> ord c = 185
      | Nd cp v \<Rightarrow> True
      | Dg cp \<Rightarrow> True
      | Ot cp \<Rightarrow> False)"

definition isdigit :: "ustring \<Rightarrow> bool" where
  "isdigit s = (s \<noteq> [] \<and> list_all isdigit_char s)"

text \<open>The value of a decimal digit, as \<^verbatim>\<open>int\<close> reads it.\<close>

definition digit_value :: "uchar \<Rightarrow> int" where
  "digit_value x = (case x of L c \<Rightarrow> int (ord c) - 48 | Nd cp v \<Rightarrow> int v | _ \<Rightarrow> 0)"

fun join :: "ustring \<Rightarrow> ustring list \<Rightarrow> ustring" where
  "join sep [] = []"
| "join sep [x] = x"
| "join sep (x # y # ys) = x @ sep @ join sep (y # ys)"

definition quoted :: "ustring \<Rightarrow> ustring" where
  "quoted s = lit [CHR 0x27] @ s @ lit [CHR 0x27]"

text \<open>
  The exceptions that can be raised in \<^verbatim>\<open>main.py\<close>. Only the text of a
  \<^verbatim>\<open>ValueError\<close> is ever read back (by \<^verbatim>\<open>str(e)\<close>), so only that one carries
  its message. \<^verbatim>\<open>OverflowError\<close> is what \<^verbatim>\<open>date + timedelta\<close> raises past the
  last representable day; \<^verbatim>\<open>input_error\<close> has no handler for it.
\<close>

datatype error = KeyError | ValueError ustring | IndexError | OverflowError


section \<open>The calendar of the datetime module\<close>

text \<open>
  \<^verbatim>\<open>datetime.date\<close>: a year, a month and a day of the proleptic Gregorian calendar,
  with the helper functions of the module under their own names.
\<close>

record date =
  year :: int
  month :: int
  day :: int

definition MINYEAR :: int where "MINYEAR = 1"
definition MAXYEAR :: int where "MAXYEAR = 9999"
definition MAXORDINAL :: int where "MAXORDINAL = 3652059"

definition is_leap :: "int \<Rightarrow> bool" where
  "is_leap y = (y mod 4 = 0 \<and> (y mod 100 \<noteq> 0 \<or> y mod 400 = 0))"

definition DAYS_IN_MONTH :: "int list" where
  "DAYS_IN_MONTH = [-1, 31, 28, 31, 30, 31, 30, 31, 31, 30, 31, 30, 31]"

definition DAYS_BEFORE_MONTH :: "int list" where
  "DAYS_BEFORE_MONTH = [-1, 0, 31, 59, 90, 120, 151, 181, 212, 243, 273, 304, 334]"

definition days_before_year :: "int \<Rightarrow> int" where
  "days_before_year y = (let y1 = y - 1 in y1 * 365 + y1 div 4 - y1 div 100 + y1 div 400)"

text \<open>Both tables are read at a month that was checked to be in 1..12 before.\<close>

definition days_in_month :: "int \<Rightarrow> int \<Rightarrow> int" where
  "days_in_month y m = (if m = 2 \<and> is_leap y then 29 else DAYS_IN_MONTH ! nat m)"

definition days_before_month :: "int \<Rightarrow> int \<Rightarrow> int" where
  "days_before_month y m = DAYS_BEFORE_MONTH ! nat m + (if m > 2 \<and> is_leap y then 1 else 0)"

definition ymd2ord :: "int \<Rightarrow> int \<Rightarrow> int \<Rightarrow> int" where
  "ymd2ord y m d = days_before_year y + days_before_month y m + d"

text \<open>The constructor \<^verbatim>\<open>date(year, month, day)\<close> checks its fields in this order.\<close>

definition date_new :: "int \<Rightarrow> int \<Rightarrow> int \<Rightarrow> error + date" where
  "date_new y m d =
     (if \<not> (MINYEAR \<le> y \<and> y \<le> MAXYEAR) then Inl (ValueError (lit ''year is out of range''))
      else if \<not> (1 \<le> m \<and> m \<le> 12) then Inl (ValueError (lit ''month must be in 1..12''))
      else if \<not> (1 \<le> d \<and> d \<le> days_in_month y m)
        then Inl (ValueError (lit ''day is out of range for month''))
      else Inr \<lparr>year = y, month = m, day = d\<rparr>)"

definition replace_year :: "date \<Rightarrow> int \<Rightarrow> error + date" where
  "replace_year dt y = date_new y (month dt) (day dt)"

definition toordinal :: "date \<Rightarrow> int" where
  "toordinal dt = ymd2ord (year dt) (month dt) (day dt)"

definition weekday :: "date \<Rightarrow> int" where
  "weekday dt = (toordinal dt + 6) mod 7"

definition date_less :: "date \<Rightarrow> date \<Rightarrow> bool" where
  "date_less a b =
     (year a < year b \<or>
      (year a = year b \<and> (month a < month b \<or> (month a = month b \<and> day a < day b))))"

text \<open>
  \<^verbatim>\<open>date + timedelta(days=n)\<close> raises \<^verbatim>\<open>OverflowError\<close> when the ordinal leaves
  \<^verbatim>\<open>1.._MAXORDINAL\<close> and is otherwise the date \<open>n\<close> days later. The date \<open>n\<close>
  days later is reached here by stepping to the next calendar day \<open>n\<close> times.
\<close>

definition next_day :: "date \<Rightarrow> date" where
  "next_day dt =
     (if day dt < days_in_month (year dt) (month dt) then dt\<lparr>day := day dt + 1\<rparr>
      else if month dt < 12 then \<lparr>year = year dt, month = month dt + 1, day = 1\<rparr>
      else \<lparr>year = year dt + 1, month = 1, day = 1\<rparr>)"

definition date_add_days :: "date \<Rightarrow> int \<Rightarrow> error + date" where
  "date_add_days dt n =
     (let ordn = toordinal dt + n
      in if 0 < ordn \<and> ordn \<le> MAXORDINAL then Inr ((next_day ^^ nat n) dt) else Inl OverflowError)"

text \<open>
  \<^verbatim>\<open>strftime("%d.%m.%Y")\<close>: day and month zero-filled to two digits; the year as
  the C library of Linux prints it, in decimal without zero-filling (the year 999 is
  printed as 999). \<open>decimal\<close> is the decimal notation of a number.
\<close>

definition digit_char :: "nat \<Rightarrow> char" where
  "digit_char n = ''0123456789'' ! n"

fun decimal :: "nat \<Rightarrow> string" where
  "decimal n = (if n < 10 then [digit_char n] else decimal (n div 10) @ [digit_char (n mod 10)])"

definition dec2 :: "int \<Rightarrow> string" where
  "dec2 n = [digit_char (nat n div 10 mod 10), digit_char (nat n mod 10)]"

definition strftime :: "date \<Rightarrow> ustring" where
  "strftime dt = lit (dec2 (day dt) @ ''.'' @ dec2 (month dt) @ ''.'' @ decimal (nat (year dt)))"


section \<open>Parsing a date: strptime with the format %d.%m.%Y\<close>

text \<open>
  \<^verbatim>\<open>datetime.strptime\<close> turns the format into a regular expression, matches it at
  the start of the input with \<^verbatim>\<open>re.match\<close>, rejects any input left over after the
  match, converts the three groups with \<^verbatim>\<open>int\<close> and builds the date. The
  expression for this format is (a bracket is a range of ASCII characters, \<^verbatim>\<open>\d\<close> any
  decimal digit of Unicode)
  \<^verbatim>\<open>(?P<d>3[0-1]|[1-2]\d|0[1-9]|[1-9]| [1-9])\.(?P<m>1[0-2]|0[1-9]|[1-9])\.(?P<Y>\d\d\d\d)\<close>.

  \<open>rmatch\<close> lists every way an expression matches a prefix of the input, as the
  matched text and the rest, in the order in which a backtracking matcher tries them;
  \<^verbatim>\<open>re.match\<close> takes the first.
\<close>

datatype regex =
    Lit char
  | Rng char char
  | Dig
  | Seq regex regex
  | Alt regex regex

fun rmatch :: "regex \<Rightarrow> ustring \<Rightarrow> (ustring \<times> ustring) list" where
  "rmatch (Lit c) s = (case s of [] \<Rightarrow> [] | x # xs \<Rightarrow> if x = L c then [([x], xs)] else [])"
| "rmatch (Rng a b) s =
     (case s of [] \<Rightarrow> [] | x # xs \<Rightarrow> if in_range a b x then [([x], xs)] else [])"
| "rmatch Dig s = (case s of [] \<Rightarrow> [] | x # xs \<Rightarrow> if isdecimal_char x then [([x], xs)] else [])"
| "rmatch (Seq p q) s =
     concat (map (\<lambda>(m1, r1). map (\<lambda>(m2, r2). (m1 @ m2, r2)) (rmatch q r1)) (rmatch p s))"
| "rmatch (Alt p q) s = rmatch p s @ rmatch q s"

text \<open>The texts an expression matches; \<open>rmatch\<close> is characterised by it below.\<close>

fun lang :: "regex \<Rightarrow> ustring set" where
  "lang (Lit c) = {[L c]}"
| "lang (Rng a b) = {[x] | x. in_range a b x}"
| "lang Dig = {[x] | x. isdecimal_char x}"
| "lang (Seq p q) = {u @ v | u v. u \<in> lang p \<and> v \<in> lang q}"
| "lang (Alt p q) = lang p \<union> lang q"

definition re_d :: regex where
  "re_d = Alt (Seq (Lit CHR ''3'') (Rng CHR ''0'' CHR ''1''))
         (Alt (Seq (Rng CHR ''1'' CHR ''2'') Dig)
         (Alt (Seq (Lit CHR ''0'') (Rng CHR ''1'' CHR ''9''))
         (Alt (Rng CHR ''1'' CHR ''9'')
              (Seq (Lit CHR '' '') (Rng CHR ''1'' CHR ''9'')))))"

definition re_m :: regex where
  "re_m = Alt (Seq (Lit CHR ''1'') (Rng CHR ''0'' CHR ''2''))
         (Alt (Seq (Lit CHR ''0'') (Rng CHR ''1'' CHR ''9''))
              (Rng CHR ''1'' CHR ''9''))"

definition re_Y :: regex where
  "re_Y = Seq Dig (Seq Dig (Seq Dig Dig))"

definition re_dot :: regex where
  "re_dot = Lit CHR ''.''"

text \<open>
  \<^verbatim>\<open>int\<close> on a matched group: the blanks before the number are skipped, the rest
  is read as decimal digits, each with its value. It is applied to the three groups
  only, which are decimal digits after at most one blank.
\<close>

definition int_of_str :: "ustring \<Rightarrow> int" where
  "int_of_str s =
     foldl (\<lambda>a c. 10 * a + digit_value c) 0 (dropWhile (\<lambda>c. c = L CHR '' '') s)"

definition format_matches ::
  "ustring \<Rightarrow> (ustring \<times> ustring \<times> ustring \<times> ustring) list" where
  "format_matches s =
     [(d, m, y, r5).
        (d, r1) \<leftarrow> rmatch re_d s, (dot1, r2) \<leftarrow> rmatch re_dot r1,
        (m, r3) \<leftarrow> rmatch re_m r2, (dot2, r4) \<leftarrow> rmatch re_dot r3,
        (y, r5) \<leftarrow> rmatch re_Y r4]"

definition strptime :: "ustring \<Rightarrow> error + date" where
  "strptime s =
     (case format_matches s of
        [] \<Rightarrow> Inl (ValueError (lit ''time data does not match format''))
      | (d, m, y, rest) # _ \<Rightarrow>
          if rest \<noteq> [] then Inl (ValueError (lit ''unconverted data remains''))
          else date_new (int_of_str y) (int_of_str m) (int_of_str d))"


text \<open>
  The forms of a date string, in words. A day is written as one ASCII digit 1 to 9, or
  as two characters: 0 or a blank and then 1 to 9, or 1 or 2 and then any decimal
  digit, or 30 or 31. A month is written as 1 to 9, 01 to 09 or 10 to 12, in ASCII
  digits; a year as four decimal digits. \<open>real_date\<close> says that the three numbers are
  a date of the calendar. \<open>dd_mm_yyyy\<close> is the form of the message
  "Use DD.MM.YYYY": two ASCII digits, a dot, two ASCII digits, a dot, four ASCII
  digits, that are a date of the calendar.
\<close>

definition nonzero_digit :: "uchar \<Rightarrow> bool" where
  "nonzero_digit x = in_range CHR ''1'' CHR ''9'' x"

definition day_text :: "ustring \<Rightarrow> bool" where
  "day_text t =
     (case t of
        [c] \<Rightarrow> nonzero_digit c
      | [a, b] \<Rightarrow>
          ((a = L CHR ''0'' \<or> a = L CHR '' '') \<and> nonzero_digit b) \<or>
          ((a = L CHR ''1'' \<or> a = L CHR ''2'') \<and> isdecimal_char b) \<or>
          (a = L CHR ''3'' \<and> (b = L CHR ''0'' \<or> b = L CHR ''1''))
      | _ \<Rightarrow> False)"

definition month_text :: "ustring \<Rightarrow> bool" where
  "month_text t =
     (case t of
        [c] \<Rightarrow> nonzero_digit c
      | [a, b] \<Rightarrow>
          (a = L CHR ''0'' \<and> nonzero_digit b) \<or>
          (a = L CHR ''1'' \<and> (b = L CHR ''0'' \<or> b = L CHR ''1'' \<or> b = L CHR ''2''))
      | _ \<Rightarrow> False)"

definition year_text :: "ustring \<Rightarrow> bool" where
  "year_text t = (length t = 4 \<and> list_all isdecimal_char t)"

definition real_date :: "int \<Rightarrow> int \<Rightarrow> int \<Rightarrow> bool" where
  "real_date y m d =
     (1 \<le> y \<and> y \<le> 9999 \<and> 1 \<le> m \<and> m \<le> 12 \<and> 1 \<le> d \<and> d \<le> days_in_month y m)"

definition date_valid :: "date \<Rightarrow> bool" where
  "date_valid dt = real_date (year dt) (month dt) (day dt)"

definition dd_mm_yyyy :: "ustring \<Rightarrow> bool" where
  "dd_mm_yyyy s =
     (length s = 10 \<and>
      list_all ascii_digit (take 2 s) \<and> take 1 (drop 2 s) = lit ''.'' \<and>
      list_all ascii_digit (take 2 (drop 3 s)) \<and> take 1 (drop 5 s) = lit ''.'' \<and>
      list_all ascii_digit (drop 6 s) \<and>
      real_date (int_of_str (drop 6 s)) (int_of_str (take 2 (drop 3 s))) (int_of_str (take 2 s)))"


section \<open>Fields\<close>

text \<open>
  A field object is modelled by its \<^verbatim>\<open>value\<close>. \<open>Phone_init\<close> and \<open>Birthday_init\<close>
  are the two constructors: the value the new field holds, or the exception raised.
\<close>

definition Phone_init :: "ustring \<Rightarrow> error + ustring" where
  "Phone_init v =
     (if length v = 10 \<and> isdigit v then Inr v
      else Inl (ValueError (lit ''Phone number must be 10 digits long.'')))"

definition Birthday_init :: "ustring \<Rightarrow> error + ustring" where
  "Birthday_init v =
     (case strptime v of
        Inr dt \<Rightarrow> Inr v
      | Inl e \<Rightarrow> Inl (ValueError (lit ''Invalid date format. Use DD.MM.YYYY'')))"

definition to_datetime :: "ustring \<Rightarrow> error + date" where
  "to_datetime v = strptime v"


section \<open>Record\<close>

text \<open>
  One contact. A method that mutates the record returns what the call did (\<open>Inr ()\<close>
  when it returned, \<open>Inl e\<close> when it raised \<open>e\<close>) together with the record as the
  call left it, so that a change made before an exception is kept.
\<close>

record Record =
  name :: ustring
  phones :: "ustring list"
  birthday :: "ustring option"

definition Record_init :: "ustring \<Rightarrow> Record" where
  "Record_init n = \<lparr>name = n, phones = [], birthday = None\<rparr>"

definition find_phone :: "Record \<Rightarrow> ustring \<Rightarrow> ustring option" where
  "find_phone r phone_number = List.find (\<lambda>phone. phone = phone_number) (phones r)"

definition add_phone :: "Record \<Rightarrow> ustring \<Rightarrow> (error + unit) \<times> Record" where
  "add_phone r phone =
     (if find_phone r phone \<noteq> None
        then (Inl (ValueError (lit ''Phone number '' @ quoted phone @ lit '' already exists.'')), r)
      else case Phone_init phone of
             Inl e \<Rightarrow> (Inl e, r)
           | Inr v \<Rightarrow> (Inr (), r\<lparr>phones := phones r @ [v]\<rparr>))"

text \<open>
  \<^verbatim>\<open>self.phones.remove(phone)\<close> removes the object that \<open>find_phone\<close> returned, which
  is the first entry with that value.
\<close>

definition remove_phone :: "Record \<Rightarrow> ustring \<Rightarrow> (error + unit) \<times> Record" where
  "remove_phone r phone_number =
     (case find_phone r phone_number of
        None \<Rightarrow> (Inl (ValueError (lit ''Phone number '' @ quoted phone_number @ lit '' not found.'')), r)
      | Some phone \<Rightarrow> (Inr (), r\<lparr>phones := remove1 phone (phones r)\<rparr>))"

definition edit_phone :: "Record \<Rightarrow> ustring \<Rightarrow> ustring \<Rightarrow> (error + unit) \<times> Record" where
  "edit_phone r old_phone new_phone =
     (if find_phone r new_phone \<noteq> None
        then (Inl (ValueError (lit ''Phone number '' @ quoted new_phone @ lit '' already exists.'')), r)
      else case add_phone r new_phone of
             (Inl e, r1) \<Rightarrow> (Inl e, r1)
           | (Inr u, r1) \<Rightarrow> remove_phone r1 old_phone)"

definition add_birthday_to :: "Record \<Rightarrow> ustring \<Rightarrow> (error + unit) \<times> Record" where
  "add_birthday_to r b =
     (case Birthday_init b of
        Inl e \<Rightarrow> (Inl e, r)
      | Inr v \<Rightarrow> (Inr (), r\<lparr>birthday := Some v\<rparr>))"

definition Record_str :: "Record \<Rightarrow> ustring" where
  "Record_str r =
     (lit ''Contact name: '') @ name r @ lit '', phones: '' @ join (lit ''; '') (phones r) @
     (case birthday r of None \<Rightarrow> [] | Some b \<Rightarrow> (lit '', birthday: '') @ b)"


section \<open>AddressBook\<close>

text \<open>
  The book is a \<^verbatim>\<open>dict\<close> from names to records, which iterates in insertion order:
  an association list in that order. Assigning to a key that is present replaces the
  value where it stands, assigning to a new key appends.
\<close>

type_synonym AddressBook = "(ustring \<times> Record) list"

fun setitem :: "ustring \<Rightarrow> Record \<Rightarrow> AddressBook \<Rightarrow> AddressBook" where
  "setitem k v [] = [(k, v)]"
| "setitem k v ((k', v') # kvs) = (if k' = k then (k, v) # kvs else (k', v') # setitem k v kvs)"

definition delitem :: "ustring \<Rightarrow> AddressBook \<Rightarrow> AddressBook" where
  "delitem k book = filter (\<lambda>(k', v). k' \<noteq> k) book"

definition add_record :: "AddressBook \<Rightarrow> Record \<Rightarrow> AddressBook" where
  "add_record book r = setitem (name r) r book"

definition book_find :: "AddressBook \<Rightarrow> ustring \<Rightarrow> Record option" where
  "book_find book n = map_of book n"

definition book_delete :: "AddressBook \<Rightarrow> ustring \<Rightarrow> (error + unit) \<times> AddressBook" where
  "book_delete book n =
     (if n \<in> set (map fst book) then (Inr (), delitem n book) else (Inl KeyError, book))"

text \<open>
  \<open>get_upcoming_birthdays\<close>, with the reference date \<^verbatim>\<open>datetime.today().date()\<close> as
  the parameter \<open>today\<close>. \<open>upcoming_loop\<close> is the \<^verbatim>\<open>for\<close> loop over the records,
  \<open>upcoming\<close> the list built so far; an item of the list is the pair of its
  \<^verbatim>\<open>"name"\<close> and its \<^verbatim>\<open>"birthday"\<close>.
\<close>

fun upcoming_loop ::
  "date \<Rightarrow> Record list \<Rightarrow> (ustring \<times> ustring) list \<Rightarrow> error + (ustring \<times> ustring) list" where
  "upcoming_loop today [] upcoming = Inr upcoming"
| "upcoming_loop today (r # rs) upcoming =
     (case birthday r of
        None \<Rightarrow> upcoming_loop today rs upcoming
      | Some b \<Rightarrow>
         (case to_datetime b of
            Inl e \<Rightarrow> Inl e
          | Inr bday \<Rightarrow>
             (case replace_year bday (year today) of
                Inl e \<Rightarrow> Inl e
              | Inr this_year \<Rightarrow>
                 (case (if date_less this_year today
                        then replace_year this_year (year today + 1) else Inr this_year) of
                    Inl e \<Rightarrow> Inl e
                  | Inr bday_this_year \<Rightarrow>
                     (let days_diff = toordinal bday_this_year - toordinal today
                      in if 0 \<le> days_diff \<and> days_diff \<le> 7
                         then (case (if weekday bday_this_year \<ge> 5
                                     then date_add_days bday_this_year
                                            (7 - weekday bday_this_year)
                                     else Inr bday_this_year) of
                                 Inl e \<Rightarrow> Inl e
                               | Inr congratulate_date \<Rightarrow>
                                   upcoming_loop today rs
                                     (upcoming @ [(name r, strftime congratulate_date)]))
                         else upcoming_loop today rs upcoming)))))"

definition get_upcoming_birthdays ::
  "date \<Rightarrow> AddressBook \<Rightarrow> error + (ustring \<times> ustring) list" where
  "get_upcoming_birthdays today book = upcoming_loop today (map snd book) []"


text \<open>
  One pass of the loop body for one record: the exception it raises, the item it
  appends, or nothing.
\<close>

definition upcoming_step :: "date \<Rightarrow> Record \<Rightarrow> error + (ustring \<times> ustring) option" where
  "upcoming_step today r =
     (case birthday r of
        None \<Rightarrow> Inr None
      | Some b \<Rightarrow>
         (case to_datetime b of
            Inl e \<Rightarrow> Inl e
          | Inr bday \<Rightarrow>
             (case replace_year bday (year today) of
                Inl e \<Rightarrow> Inl e
              | Inr this_year \<Rightarrow>
                 (case (if date_less this_year today
                        then replace_year this_year (year today + 1) else Inr this_year) of
                    Inl e \<Rightarrow> Inl e
                  | Inr bday_this_year \<Rightarrow>
                     (if 0 \<le> toordinal bday_this_year - toordinal today \<and>
                         toordinal bday_this_year - toordinal today \<le> 7
                      then (case (if weekday bday_this_year \<ge> 5
                                  then date_add_days bday_this_year (7 - weekday bday_this_year)
                                  else Inr bday_this_year) of
                              Inl e \<Rightarrow> Inl e
                            | Inr congratulate_date \<Rightarrow>
                                Inr (Some (name r, strftime congratulate_date)))
                      else Inr None)))))"

text \<open>
  The query in the words of the specification. \<open>projected\<close> is the birthday's month
  and day in the reference year, or in the next year when that date is before the
  reference date; \<open>projectable\<close> says that these dates exist; \<open>days_diff\<close> is the
  difference in days; \<open>congratulation_date\<close> moves a Saturday two days and a Sunday
  one day forward; \<open>can_project\<close> says that a record has no birthday or one that
  can be projected; \<open>upcoming_item\<close> is the item of a record, if it has one.
\<close>

definition projected :: "date \<Rightarrow> date \<Rightarrow> date" where
  "projected today bday =
     (let this_year = \<lparr>year = year today, month = month bday, day = day bday\<rparr>
      in if date_less this_year today
         then \<lparr>year = year today + 1, month = month bday, day = day bday\<rparr>
         else this_year)"

definition projectable :: "date \<Rightarrow> date \<Rightarrow> bool" where
  "projectable today bday =
     (real_date (year today) (month bday) (day bday) \<and>
      (date_less \<lparr>year = year today, month = month bday, day = day bday\<rparr> today \<longrightarrow>
         real_date (year today + 1) (month bday) (day bday)))"

definition days_diff :: "date \<Rightarrow> date \<Rightarrow> int" where
  "days_diff today bday = toordinal (projected today bday) - toordinal today"

definition congratulation_date :: "date \<Rightarrow> date" where
  "congratulation_date p =
     (if weekday p = 5 then next_day (next_day p)
      else if weekday p = 6 then next_day p
      else p)"

definition can_project :: "date \<Rightarrow> Record \<Rightarrow> bool" where
  "can_project today r =
     (case birthday r of
        None \<Rightarrow> True
      | Some b \<Rightarrow> (case to_datetime b of Inl e \<Rightarrow> False | Inr bday \<Rightarrow> projectable today bday))"

definition upcoming_item :: "date \<Rightarrow> Record \<Rightarrow> (ustring \<times> ustring) option" where
  "upcoming_item today r =
     (case birthday r of
        None \<Rightarrow> None
      | Some b \<Rightarrow>
         (case to_datetime b of
            Inl e \<Rightarrow> None
          | Inr bday \<Rightarrow>
              if 0 \<le> days_diff today bday \<and> days_diff today bday \<le> 7
              then Some (name r, strftime (congratulation_date (projected today bday)))
              else None))"


section \<open>Commands\<close>

text \<open>
  A command takes its arguments and the book and returns its reply, or the exception
  that left it, together with the book as the call left it. \<open>input_error\<close> is the
  decorator: it runs the function and replaces three kinds of exception by a fixed
  reply.

  The book holds the record objects themselves, and a command changes a record in
  place: what it changes is the record held under the key where the command found or
  stored it. \<open>mutated n r' book\<close> is the book after such a change, with \<open>r'\<close> as the
  record held under \<open>n\<close>; it puts nothing into the book when no record is held there.
\<close>

fun mutated :: "ustring \<Rightarrow> Record \<Rightarrow> AddressBook \<Rightarrow> AddressBook" where
  "mutated k v [] = []"
| "mutated k v ((k', v') # kvs) = (if k' = k then (k', v) # kvs else (k', v') # mutated k v kvs)"

definition input_error ::
  "('x \<Rightarrow> (error + ustring) \<times> 's) \<Rightarrow> 'x \<Rightarrow> (error + ustring) \<times> 's" where
  "input_error func x =
     (case func x of
        (Inr reply, s) \<Rightarrow> (Inr reply, s)
      | (Inl KeyError, s) \<Rightarrow> (Inr (lit ''Contact not found.''), s)
      | (Inl (ValueError msg), s) \<Rightarrow> (Inr (lit ''Give me name and phone please.''), s)
      | (Inl IndexError, s) \<Rightarrow>
          (Inr (lit ''Invalid input. Please provide the correct number of arguments.''), s)
      | (Inl OverflowError, s) \<Rightarrow> (Inl OverflowError, s))"

text \<open>Unpacking \<^verbatim>\<open>name, phone = args\<close> raises \<^verbatim>\<open>ValueError\<close> on any other length.\<close>

definition unpack_error :: error where
  "unpack_error = ValueError (lit ''wrong number of values to unpack'')"

definition add_contact_body :: "ustring list \<times> AddressBook \<Rightarrow> (error + ustring) \<times> AddressBook" where
  "add_contact_body x =
     (case x of (args, book) \<Rightarrow>
       (case args of
          [n, phone] \<Rightarrow>
            (let (record, book1) =
                   (case book_find book n of
                      None \<Rightarrow> (Record_init n, add_record book (Record_init n))
                    | Some r \<Rightarrow> (r, book))
             in case add_phone record phone of
                  (Inr u, r') \<Rightarrow> (Inr (lit ''Contact added.''), mutated n r' book1)
                | (Inl (ValueError msg), r') \<Rightarrow> (Inr msg, mutated n r' book1)
                | (Inl e, r') \<Rightarrow> (Inl e, mutated n r' book1))
        | _ \<Rightarrow> (Inl unpack_error, book)))"

definition add_contact :: "ustring list \<times> AddressBook \<Rightarrow> (error + ustring) \<times> AddressBook" where
  "add_contact = input_error add_contact_body"

definition change_contact_body ::
  "ustring list \<times> AddressBook \<Rightarrow> (error + ustring) \<times> AddressBook" where
  "change_contact_body x =
     (case x of (args, book) \<Rightarrow>
       (case args of
          [n, old_phone, new_phone] \<Rightarrow>
            (case book_find book n of
               None \<Rightarrow> (Inl KeyError, book)
             | Some record \<Rightarrow>
                (case edit_phone record old_phone new_phone of
                   (Inl e, r') \<Rightarrow> (Inl e, mutated n r' book)
                 | (Inr u, r') \<Rightarrow> (Inr (lit ''Phone updated.''), mutated n r' book)))
        | _ \<Rightarrow> (Inl unpack_error, book)))"

definition change_contact :: "ustring list \<times> AddressBook \<Rightarrow> (error + ustring) \<times> AddressBook" where
  "change_contact = input_error change_contact_body"

definition show_phone_body :: "ustring list \<times> AddressBook \<Rightarrow> (error + ustring) \<times> AddressBook" where
  "show_phone_body x =
     (case x of (args, contacts) \<Rightarrow>
       (case args of
          [] \<Rightarrow> (Inl IndexError, contacts)
        | n # rest \<Rightarrow>
            (case book_find contacts n of
               None \<Rightarrow> (Inl KeyError, contacts)
             | Some record \<Rightarrow> (Inr (join (lit ''; '') (phones record)), contacts))))"

definition show_phone :: "ustring list \<times> AddressBook \<Rightarrow> (error + ustring) \<times> AddressBook" where
  "show_phone = input_error show_phone_body"

definition show_all_body :: "AddressBook \<Rightarrow> (error + ustring) \<times> AddressBook" where
  "show_all_body contacts =
     (if contacts = [] then (Inr (lit ''No contacts saved.''), contacts)
      else (Inr (join (lit [CHR 0x0A]) (map (\<lambda>(k, record). Record_str record) contacts)), contacts))"

definition show_all :: "AddressBook \<Rightarrow> (error + ustring) \<times> AddressBook" where
  "show_all = input_error show_all_body"

definition remove_phone_command_body ::
  "ustring list \<times> AddressBook \<Rightarrow> (error + ustring) \<times> AddressBook" where
  "remove_phone_command_body x =
     (case x of (args, contacts) \<Rightarrow>
       (case args of
          [n, phone] \<Rightarrow>
            (case book_find contacts n of
               None \<Rightarrow> (Inl KeyError, contacts)
             | Some record \<Rightarrow>
                (case remove_phone record phone of
                   (Inr u, r') \<Rightarrow>
                     (if phones r' = []
                      then (Inr (lit ''Phone removed. Contact '' @ quoted n @
                                 (lit '' deleted because no phones left.'')), delitem n contacts)
                      else (Inr (lit ''Phone '' @ quoted phone @ lit '' removed from contact '' @
                                 quoted n @ lit ''.''), mutated n r' contacts))
                 | (Inl (ValueError msg), r') \<Rightarrow> (Inr msg, mutated n r' contacts)
                 | (Inl e, r') \<Rightarrow> (Inl e, mutated n r' contacts)))
        | _ \<Rightarrow> (Inl unpack_error, contacts)))"

definition remove_phone_command ::
  "ustring list \<times> AddressBook \<Rightarrow> (error + ustring) \<times> AddressBook" where
  "remove_phone_command = input_error remove_phone_command_body"

definition delet_body :: "ustring list \<times> AddressBook \<Rightarrow> (error + ustring) \<times> AddressBook" where
  "delet_body x =
     (case x of (args, contacts) \<Rightarrow>
       (case args of
          [] \<Rightarrow> (Inl IndexError, contacts)
        | n # rest \<Rightarrow>
            (case book_delete contacts n of
               (Inl e, contacts') \<Rightarrow> (Inl e, contacts')
             | (Inr u, contacts') \<Rightarrow> (Inr (lit ''Contact <'' @ n @ lit ''> deleted.''), contacts'))))"

definition delet :: "ustring list \<times> AddressBook \<Rightarrow> (error + ustring) \<times> AddressBook" where
  "delet = input_error delet_body"

definition add_birthday_body ::
  "ustring list \<times> AddressBook \<Rightarrow> (error + ustring) \<times> AddressBook" where
  "add_birthday_body x =
     (case x of (args, book) \<Rightarrow>
       (if length args \<noteq> 2
        then (Inl (ValueError
                (lit ''Please provide both name and birthday. Format: <name> <DD.MM.YYYY>'')), book)
        else (case args of
                [n, bday] \<Rightarrow>
                  (case book_find book n of
                     None \<Rightarrow> (Inl KeyError, book)
                   | Some record \<Rightarrow>
                      (case add_birthday_to record bday of
                         (Inl e, r') \<Rightarrow> (Inl e, mutated n r' book)
                       | (Inr u, r') \<Rightarrow> (Inr (lit ''Birthday added.''), mutated n r' book)))
              | _ \<Rightarrow> (Inl unpack_error, book))))"

definition add_birthday :: "ustring list \<times> AddressBook \<Rightarrow> (error + ustring) \<times> AddressBook" where
  "add_birthday = input_error add_birthday_body"

definition show_birthday_body ::
  "ustring list \<times> AddressBook \<Rightarrow> (error + ustring) \<times> AddressBook" where
  "show_birthday_body x =
     (case x of (args, book) \<Rightarrow>
       (case args of
          [] \<Rightarrow> (Inl IndexError, book)
        | n # rest \<Rightarrow>
            (case book_find book n of
               None \<Rightarrow> (Inl KeyError, book)
             | Some record \<Rightarrow>
                (case birthday record of
                   None \<Rightarrow> (Inl KeyError, book)
                 | Some b \<Rightarrow> (Inr b, book)))))"

definition show_birthday :: "ustring list \<times> AddressBook \<Rightarrow> (error + ustring) \<times> AddressBook" where
  "show_birthday = input_error show_birthday_body"

definition birthdays_body ::
  "date \<Rightarrow> ustring list \<times> AddressBook \<Rightarrow> (error + ustring) \<times> AddressBook" where
  "birthdays_body today x =
     (case x of (args, book) \<Rightarrow>
       (case get_upcoming_birthdays today book of
          Inl e \<Rightarrow> (Inl e, book)
        | Inr upcoming \<Rightarrow>
            (if upcoming = [] then (Inr (lit ''No upcoming birthdays this week.''), book)
             else (Inr (join (lit [CHR 0x0A]) (map (\<lambda>(n, b). n @ lit '' - '' @ b) upcoming)), book))))"

definition birthdays ::
  "date \<Rightarrow> ustring list \<times> AddressBook \<Rightarrow> (error + ustring) \<times> AddressBook" where
  "birthdays today = input_error (birthdays_body today)"


section \<open>Theorems\<close>

subsection \<open>String literals\<close>

lemma lit_Nil [simp]: "lit [] = []"
  by (simp add: lit_def)

lemma lit_Cons [simp]: "lit (c # cs) = L c # lit cs"
  by (simp add: lit_def)

lemma lit_append [simp]: "lit (a @ b) = lit a @ lit b"
  by (simp add: lit_def)

lemma length_lit [simp]: "length (lit s) = length s"
  by (simp add: lit_def)

subsection \<open>Phone validation\<close>

lemma isdecimal_ascii: "is_ascii c \<Longrightarrow> isdecimal_char c = ascii_digit c"
  by (cases c) (auto simp: isdecimal_char_def ascii_digit_def in_range_def is_ascii_def ord_def)

lemma isdigit_char_ascii: "is_ascii c \<Longrightarrow> isdigit_char c = isdecimal_char c"
  by (cases c) (auto simp: isdigit_char_def isdecimal_char_def is_ascii_def)

text \<open>
  Claim C2, as amended. \<open>Phone_init s\<close> succeeds if and only if \<open>s\<close> has exactly 10
  characters and each of them is a digit in the sense of \<^verbatim>\<open>str.isdigit\<close>; it then
  holds \<open>s\<close> itself, and otherwise it raises \<^verbatim>\<open>ValueError\<close> with the message
  "Phone number must be 10 digits long.". For a string of ASCII characters the digits
  of \<^verbatim>\<open>str.isdigit\<close> are exactly the decimal digits 0 to 9.
\<close>

theorem Phone_init_digits:
  "Phone_init s =
     (if length s = 10 \<and> (\<forall>c \<in> set s. isdigit_char c) then Inr s
      else Inl (ValueError (lit ''Phone number must be 10 digits long.'')))
   \<and> ((\<forall>c \<in> set s. is_ascii c) \<longrightarrow>
        ((\<exists>v. Phone_init s = Inr v) \<longleftrightarrow> length s = 10 \<and> (\<forall>c \<in> set s. isdecimal_char c)))"
proof -
  have shape: "Phone_init s =
     (if length s = 10 \<and> (\<forall>c \<in> set s. isdigit_char c) then Inr s
      else Inl (ValueError (lit ''Phone number must be 10 digits long.'')))"
    by (auto simp: Phone_init_def isdigit_def list_all_iff)
  have ascii: "(\<forall>c \<in> set s. isdigit_char c) \<longleftrightarrow> (\<forall>c \<in> set s. isdecimal_char c)"
    if "\<forall>c \<in> set s. is_ascii c"
    using that by (auto simp: isdigit_char_ascii)
  show ?thesis
    using shape ascii by auto
qed

theorem Phone_init_digits_witness:
  "length (lit ''1234567890'') = 10 \<and> list_all isdigit_char (lit ''1234567890'')
   \<and> list_all is_ascii (lit ''1234567890'')
   \<and> Phone_init (lit ''1234567890'') = Inr (lit ''1234567890'')"
  using Phone_init_digits [of "lit ''1234567890''"]
  by (simp add: isdigit_char_def is_ascii_def ord_def)

text \<open>
  The claim as it was stated fails: a string of nine decimal digits and the
  superscript two (U+00B2) has 10 characters, one of which is no decimal digit, and
  is accepted.
\<close>

theorem Phone_init_superscript_counterexample:
  "length (lit (''123456789'' @ [CHR 0xB2])) = 10
   \<and> \<not> list_all isdecimal_char (lit (''123456789'' @ [CHR 0xB2]))
   \<and> Phone_init (lit (''123456789'' @ [CHR 0xB2])) = Inr (lit (''123456789'' @ [CHR 0xB2]))"
  by (simp add: Phone_init_def isdigit_def isdigit_char_def isdecimal_char_def ord_def)

subsection \<open>Phones of a record\<close>

lemma find_eq_value: "List.find (\<lambda>v. v = p) xs = (if p \<in> set xs then Some p else None)"
  by (induction xs) auto

lemma find_phone_cases: "find_phone r p = (if p \<in> set (phones r) then Some p else None)"
  by (simp add: find_phone_def find_eq_value)

lemma Phone_init_sample: "Phone_init (lit ''1234567890'') = Inr (lit ''1234567890'')"
  by (simp add: Phone_init_def isdigit_def isdigit_char_def isdecimal_char_def ord_def)

text \<open>
  Claim C7. For a valid phone string \<open>p\<close> that the record does not hold, \<open>add_phone\<close>
  returns and leaves \<open>p\<close> appended at the end of the phone list; \<open>find_phone\<close> then
  returns that phone; a second \<open>add_phone\<close> of the same value raises the "already
  exists" \<^verbatim>\<open>ValueError\<close> and leaves the phone list as it was.
\<close>

theorem add_phone_then_find:
  assumes valid: "Phone_init p = Inr p" and fresh: "p \<notin> set (phones r)"
  shows "add_phone r p = (Inr (), r\<lparr>phones := phones r @ [p]\<rparr>)
     \<and> find_phone (r\<lparr>phones := phones r @ [p]\<rparr>) p = Some p
     \<and> add_phone (r\<lparr>phones := phones r @ [p]\<rparr>) p =
         (Inl (ValueError (lit ''Phone number '' @ quoted p @ lit '' already exists.'')),
          r\<lparr>phones := phones r @ [p]\<rparr>)"
  using valid fresh by (simp add: add_phone_def find_phone_cases)

theorem add_phone_then_find_witness:
  "Phone_init (lit ''1234567890'') = Inr (lit ''1234567890'')
   \<and> lit ''1234567890'' \<notin> set (phones (Record_init (lit ''alice'')))
   \<and> add_phone (Record_init (lit ''alice'')) (lit ''1234567890'') =
        (Inr (), \<lparr>name = lit ''alice'', phones = [lit ''1234567890''], birthday = None\<rparr>)
   \<and> find_phone \<lparr>name = lit ''alice'', phones = [lit ''1234567890''], birthday = None\<rparr> (lit ''1234567890'')
        = Some (lit ''1234567890'')"
proof -
  have f: "(lit ''1234567890'') \<notin> set (phones (Record_init (lit ''alice'')))"
    by (simp add: Record_init_def)
  show ?thesis
    using Phone_init_sample f add_phone_then_find [OF Phone_init_sample f]
    by (simp add: Record_init_def)
qed

text \<open>
  Claim C4, as amended. For a valid phone string \<open>new\<close> that the record does not hold,
  \<open>edit_phone\<close> first adds \<open>new\<close> and then removes \<open>old\<close> from the result. So when
  \<open>old\<close> is not in the record and differs from \<open>new\<close>, the call raises the "not found"
  \<^verbatim>\<open>ValueError\<close> of the removal and leaves \<open>new\<close> in the phone list.
\<close>

theorem edit_phone_add_before_remove:
  assumes valid: "Phone_init new = Inr new" and fresh: "new \<notin> set (phones r)"
  shows "add_phone r new = (Inr (), r\<lparr>phones := phones r @ [new]\<rparr>)
     \<and> edit_phone r old new = remove_phone (r\<lparr>phones := phones r @ [new]\<rparr>) old
     \<and> (old \<notin> set (phones r) \<and> old \<noteq> new \<longrightarrow>
          edit_phone r old new =
            (Inl (ValueError (lit ''Phone number '' @ quoted old @ lit '' not found.'')),
             r\<lparr>phones := phones r @ [new]\<rparr>)
          \<and> new \<in> set (phones (snd (edit_phone r old new))))"
  using valid fresh
  by (simp add: edit_phone_def add_phone_def remove_phone_def find_phone_cases)

theorem edit_phone_add_before_remove_witness:
  "Phone_init (lit ''1234567890'') = Inr (lit ''1234567890'')
   \<and> lit ''1234567890'' \<notin> set (phones (Record_init (lit ''alice'')))
   \<and> lit ''5555555555'' \<notin> set (phones (Record_init (lit ''alice'')))
   \<and> lit ''5555555555'' \<noteq> (lit ''1234567890'')
   \<and> edit_phone (Record_init (lit ''alice'')) (lit ''5555555555'') (lit ''1234567890'') =
        (Inl (ValueError (lit ''Phone number '5555555555' not found.'')),
         \<lparr>name = lit ''alice'', phones = [lit ''1234567890''], birthday = None\<rparr>)"
proof -
  have f: "(lit ''1234567890'') \<notin> set (phones (Record_init (lit ''alice'')))"
    by (simp add: Record_init_def)
  have "edit_phone (Record_init (lit ''alice'')) (lit ''5555555555'') (lit ''1234567890'') =
          (Inl (ValueError (lit ''Phone number '' @ quoted (lit ''5555555555'') @ lit '' not found.'')),
           (Record_init (lit ''alice''))\<lparr>phones := phones (Record_init (lit ''alice'')) @ [lit ''1234567890'']\<rparr>)"
    using edit_phone_add_before_remove
            [OF Phone_init_sample f, of "(lit ''5555555555'')", THEN conjunct2, THEN conjunct2]
    by (simp add: Record_init_def)
  then show ?thesis
    using Phone_init_sample by (simp add: Record_init_def quoted_def)
qed

text \<open>
  The claim as it was stated fails when \<open>old\<close> and \<open>new\<close> are the same string: the
  phone that was just added is the one removed, the call returns, and \<open>new\<close> is not
  in the phone list afterwards.
\<close>

theorem edit_phone_same_counterexample:
  "Phone_init (lit ''1234567890'') = Inr (lit ''1234567890'')
   \<and> lit ''1234567890'' \<notin> set (phones (Record_init (lit ''alice'')))
   \<and> edit_phone (Record_init (lit ''alice'')) (lit ''1234567890'') (lit ''1234567890'')
        = (Inr (), Record_init (lit ''alice''))
   \<and> lit ''1234567890'' \<notin>
        set (phones (snd (edit_phone (Record_init (lit ''alice'')) (lit ''1234567890'') (lit ''1234567890''))))"
  by (simp add: edit_phone_def add_phone_def remove_phone_def find_phone_def Record_init_def
      Phone_init_def isdigit_def isdigit_char_def isdecimal_char_def ord_def)

subsection \<open>The add and remove-phone commands\<close>

lemma setitem_absent: "map_of book n = None \<Longrightarrow> setitem n v book = book @ [(n, v)]"
  by (induction book) (auto split: if_splits)

lemma mutated_last: "map_of book n = None \<Longrightarrow> mutated n v' (book @ [(n, v)]) = book @ [(n, v')]"
  by (induction book) (auto split: if_splits)

lemma map_of_append_absent: "map_of book n = None \<Longrightarrow> map_of (book @ [(n, v)]) n = Some v"
  by (induction book) (auto split: if_splits)

lemma map_of_delitem: "map_of (delitem n book) n = None"
  by (induction book) (auto simp: delitem_def)

lemma keys_delitem: "n \<notin> fst ` set (delitem n book)"
  by (auto simp: delitem_def)

lemma Record_str_init: "Record_str (Record_init n) = lit ''Contact name: '' @ n @ lit '', phones: ''"
  by (simp add: Record_str_def Record_init_def)

lemma Phone_init_cases:
  "Phone_init p = Inr p \<or> Phone_init p = Inl (ValueError (lit ''Phone number must be 10 digits long.''))"
  by (simp add: Phone_init_def)

text \<open>
  Claim C9. When the name is not in the book and the phone string is not a valid
  phone, the add command replies with the message of the phone validation, and the
  book has changed: it is the book that \<open>add_record\<close> made when it stored the record
  created for the name, before the phone was validated. That record has no phones and
  stands at the end of the book, it is found under the name, and the all command
  lists it.
\<close>

theorem add_contact_invalid_phone:
  assumes absent: "book_find book n = None" and invalid: "Phone_init phone \<noteq> Inr phone"
  shows "add_contact ([n, phone], book) =
           (Inr (lit ''Phone number must be 10 digits long.''), book @ [(n, Record_init n)])
     \<and> snd (add_contact ([n, phone], book)) = add_record book (Record_init n)
     \<and> snd (add_contact ([n, phone], book)) \<noteq> book
     \<and> book_find (book @ [(n, Record_init n)]) n = Some (Record_init n)
     \<and> phones (Record_init n) = []
     \<and> show_all (book @ [(n, Record_init n)]) =
           (Inr (join (lit [CHR 0x0A])
                   (map (\<lambda>(k, r). Record_str r) book @
                    [lit ''Contact name: '' @ n @ lit '', phones: ''])),
            book @ [(n, Record_init n)])"
proof -
  have none: "map_of book n = None"
    using absent by (simp add: book_find_def)
  have phone: "Phone_init phone = Inl (ValueError (lit ''Phone number must be 10 digits long.''))"
    using invalid Phone_init_cases [of phone] by simp
  have added: "add_record book (Record_init n) = book @ [(n, Record_init n)]"
    using none by (simp add: add_record_def Record_init_def setitem_absent)
  have raised: "add_phone (Record_init n) phone =
      (Inl (ValueError (lit ''Phone number must be 10 digits long.'')), Record_init n)"
    using phone by (simp add: add_phone_def find_phone_cases Record_init_def)
  have body: "add_contact_body ([n, phone], book) =
      (Inr (lit ''Phone number must be 10 digits long.''), book @ [(n, Record_init n)])"
    using absent added raised none by (simp add: add_contact_body_def mutated_last)
  have cmd: "add_contact ([n, phone], book) =
      (Inr (lit ''Phone number must be 10 digits long.''), book @ [(n, Record_init n)])"
    using body by (simp add: add_contact_def input_error_def)
  have stored: "snd (add_contact ([n, phone], book)) = add_record book (Record_init n)"
    using cmd added by simp
  have changed: "snd (add_contact ([n, phone], book)) \<noteq> book"
    using cmd by simp
  have found: "book_find (book @ [(n, Record_init n)]) n = Some (Record_init n)"
    using map_of_append_absent [OF none] by (simp only: book_find_def)
  have empty: "phones (Record_init n) = []"
    by (simp add: Record_init_def)
  have listed: "show_all (book @ [(n, Record_init n)]) =
           (Inr (join (lit [CHR 0x0A])
                   (map (\<lambda>(k, r). Record_str r) book @
                    [lit ''Contact name: '' @ n @ lit '', phones: ''])),
            book @ [(n, Record_init n)])"
    by (simp add: show_all_def show_all_body_def input_error_def Record_str_init)
  note parts = cmd stored changed found empty listed
  show ?thesis
    by (intro conjI) (rule parts)+
qed

theorem add_contact_invalid_phone_witness:
  "book_find [] (lit ''alice'') = None \<and> Phone_init (lit ''12345'') \<noteq> Inr (lit ''12345'')
   \<and> add_contact ([lit ''alice'', lit ''12345''], []) =
        (Inr (lit ''Phone number must be 10 digits long.''),
         [(lit ''alice'', \<lparr>name = lit ''alice'', phones = [], birthday = None\<rparr>)])
   \<and> show_all [(lit ''alice'', \<lparr>name = lit ''alice'', phones = [], birthday = None\<rparr>)] =
        (Inr (lit ''Contact name: alice, phones: ''),
         [(lit ''alice'', \<lparr>name = lit ''alice'', phones = [], birthday = None\<rparr>)])"
proof -
  have a: "book_find [] (lit ''alice'') = None"
    by (simp add: book_find_def)
  have i: "Phone_init (lit ''12345'') \<noteq> Inr (lit ''12345'')"
    by (simp add: Phone_init_def)
  show ?thesis
    using a i add_contact_invalid_phone [OF a i] by (simp add: Record_init_def)
qed

text \<open>
  Claim C8. When the contact stored under the name has exactly the one phone \<open>p\<close>,
  the remove-phone command with that name and \<open>p\<close> replies that the phone was removed
  and the contact deleted, and leaves the book without an entry for the name; the all
  command then lists the remaining records only, or says that no contacts are saved.
\<close>

theorem remove_last_phone_deletes_contact:
  assumes found: "book_find book n = Some r" and single: "phones r = [p]"
  shows "remove_phone_command ([n, p], book) =
           (Inr (lit ''Phone removed. Contact '' @ quoted n @ lit '' deleted because no phones left.''),
            delitem n book)
     \<and> book_find (delitem n book) n = None
     \<and> n \<notin> fst ` set (delitem n book)
     \<and> show_all (delitem n book) =
           (Inr (if delitem n book = [] then (lit ''No contacts saved.'')
                 else join (lit [CHR 0x0A])
                        (map (\<lambda>(k, r). Record_str r) (filter (\<lambda>(k, r). k \<noteq> n) book))),
            delitem n book)"
proof -
  have removed: "remove_phone r p = (Inr (), r\<lparr>phones := []\<rparr>)"
    using single by (simp add: remove_phone_def find_phone_cases)
  have body: "remove_phone_command_body ([n, p], book) =
           (Inr (lit ''Phone removed. Contact '' @ quoted n @ lit '' deleted because no phones left.''),
            delitem n book)"
    using found removed by (simp add: remove_phone_command_body_def)
  have cmd: "remove_phone_command ([n, p], book) =
           (Inr (lit ''Phone removed. Contact '' @ quoted n @ lit '' deleted because no phones left.''),
            delitem n book)"
    using body by (simp add: remove_phone_command_def input_error_def)
  have gone: "book_find (delitem n book) n = None"
    by (simp add: book_find_def map_of_delitem)
  have listed: "show_all (delitem n book) =
           (Inr (if delitem n book = [] then (lit ''No contacts saved.'')
                 else join (lit [CHR 0x0A])
                        (map (\<lambda>(k, r). Record_str r) (filter (\<lambda>(k, r). k \<noteq> n) book))),
            delitem n book)"
    by (simp add: show_all_def show_all_body_def input_error_def delitem_def)
  show ?thesis
    using cmd gone listed keys_delitem [of n book] by simp
qed

theorem remove_last_phone_deletes_contact_witness:
  "book_find [(lit ''alice'', \<lparr>name = lit ''alice'', phones = [lit ''1234567890''], birthday = None\<rparr>)] (lit ''alice'')
      = Some \<lparr>name = lit ''alice'', phones = [lit ''1234567890''], birthday = None\<rparr>
   \<and> remove_phone_command ([lit ''alice'', lit ''1234567890''],
        [(lit ''alice'', \<lparr>name = lit ''alice'', phones = [lit ''1234567890''], birthday = None\<rparr>)]) =
        (Inr (lit ''Phone removed. Contact 'alice' deleted because no phones left.''), [])
   \<and> show_all [] = (Inr (lit ''No contacts saved.''), [])"
proof -
  let ?r = "\<lparr>name = lit ''alice'', phones = [lit ''1234567890''], birthday = None\<rparr>"
  have f: "book_find [(lit ''alice'', ?r)] (lit ''alice'') = Some ?r"
    by (simp add: book_find_def)
  have s: "phones ?r = [lit ''1234567890'']"
    by simp
  show ?thesis
    using f remove_last_phone_deletes_contact [OF f s]
    by (simp add: delitem_def quoted_def)
qed

subsection \<open>Birthday validation\<close>

lemma rmatch_iff: "(m, r) \<in> set (rmatch re s) \<longleftrightarrow> s = m @ r \<and> m \<in> lang re"
proof (induction re arbitrary: s m r)
  case (Lit c)
  then show ?case by (cases s) auto
next
  case (Rng a b)
  then show ?case by (cases s) auto
next
  case Dig
  then show ?case by (cases s) auto
next
  case (Seq p q)
  have "(m, r) \<in> set (rmatch (Seq p q) s) \<longleftrightarrow>
        (\<exists>m1 r1 m2. (m1, r1) \<in> set (rmatch p s) \<and> (m2, r) \<in> set (rmatch q r1) \<and> m = m1 @ m2)"
    by force
  also have "\<dots> \<longleftrightarrow> (\<exists>m1 m2. s = m1 @ m2 @ r \<and> m1 \<in> lang p \<and> m2 \<in> lang q \<and> m = m1 @ m2)"
    by (simp add: Seq.IH) blast
  also have "\<dots> \<longleftrightarrow> s = m @ r \<and> (\<exists>u v. m = u @ v \<and> u \<in> lang p \<and> v \<in> lang q)"
    by (metis append.assoc)
  also have "\<dots> \<longleftrightarrow> s = m @ r \<and> m \<in> lang (Seq p q)"
    by simp
  finally show ?case .
next
  case (Alt p q)
  then show ?case by auto
qed

lemma ord_eq_iff: "ord a = ord b \<longleftrightarrow> a = b"
  by (simp add: ord_def)

lemma char_by_ord: "ord c = n \<Longrightarrow> n < 256 \<Longrightarrow> c = char_of n"
  by (auto simp: ord_def)

lemma ord_range_01: "ord CHR ''0'' \<le> ord x \<and> ord x \<le> ord CHR ''1'' \<longleftrightarrow> x = CHR ''0'' \<or> x = CHR ''1''"
proof -
  have "ord x = 48 \<or> ord x = 49 \<longleftrightarrow> x = CHR ''0'' \<or> x = CHR ''1''"
    using ord_eq_iff [of x "CHR ''0''"] ord_eq_iff [of x "CHR ''1''"] by (simp add: ord_def)
  moreover have "ord CHR ''0'' \<le> ord x \<and> ord x \<le> ord CHR ''1'' \<longleftrightarrow> ord x = 48 \<or> ord x = 49"
    by (auto simp: ord_def)
  ultimately show ?thesis by blast
qed

lemma ord_range_02:
  "ord CHR ''0'' \<le> ord x \<and> ord x \<le> ord CHR ''2'' \<longleftrightarrow> x = CHR ''0'' \<or> x = CHR ''1'' \<or> x = CHR ''2''"
proof -
  have "ord x = 48 \<or> ord x = 49 \<or> ord x = 50 \<longleftrightarrow> x = CHR ''0'' \<or> x = CHR ''1'' \<or> x = CHR ''2''"
    using ord_eq_iff [of x "CHR ''0''"] ord_eq_iff [of x "CHR ''1''"] ord_eq_iff [of x "CHR ''2''"]
    by (simp add: ord_def)
  moreover have "ord CHR ''0'' \<le> ord x \<and> ord x \<le> ord CHR ''2'' \<longleftrightarrow> ord x = 48 \<or> ord x = 49 \<or> ord x = 50"
    by (auto simp: ord_def)
  ultimately show ?thesis by blast
qed

lemma ord_range_12:
  "ord CHR ''1'' \<le> ord x \<and> ord x \<le> ord CHR ''2'' \<longleftrightarrow> x = CHR ''1'' \<or> x = CHR ''2''"
proof -
  have "ord x = 49 \<or> ord x = 50 \<longleftrightarrow> x = CHR ''1'' \<or> x = CHR ''2''"
    using ord_eq_iff [of x "CHR ''1''"] ord_eq_iff [of x "CHR ''2''"] by (simp add: ord_def)
  moreover have "ord CHR ''1'' \<le> ord x \<and> ord x \<le> ord CHR ''2'' \<longleftrightarrow> ord x = 49 \<or> ord x = 50"
    by (auto simp: ord_def)
  ultimately show ?thesis by blast
qed

lemma in_range_01: "in_range CHR ''0'' CHR ''1'' x \<longleftrightarrow> x = L CHR ''0'' \<or> x = L CHR ''1''"
  by (cases x) (simp_all add: in_range_def ord_range_01)

lemma in_range_02:
  "in_range CHR ''0'' CHR ''2'' x \<longleftrightarrow> x = L CHR ''0'' \<or> x = L CHR ''1'' \<or> x = L CHR ''2''"
  by (cases x) (simp_all add: in_range_def ord_range_02)

lemma in_range_12: "in_range CHR ''1'' CHR ''2'' x \<longleftrightarrow> x = L CHR ''1'' \<or> x = L CHR ''2''"
  by (cases x) (simp_all add: in_range_def ord_range_12)

lemma lang_by_rmatch: "t \<in> lang re \<longleftrightarrow> (t, []) \<in> set (rmatch re t)"
  by (simp add: rmatch_iff)

lemma lang_re_d: "t \<in> lang re_d \<longleftrightarrow> day_text t"
proof -
  have "(t, []) \<in> set (rmatch re_d t) \<longleftrightarrow> day_text t"
  proof -
    consider "t = []" | a where "t = [a]" | a b where "t = [a, b]"
      | a b c u where "t = a # b # c # u"
      by (metis list.exhaust)
    then show ?thesis
    proof cases
      case 1
      then show ?thesis by (simp add: re_d_def day_text_def)
    next
      case 2
      then show ?thesis
        by (simp add: re_d_def day_text_def nonzero_digit_def)
    next
      case 3
      then show ?thesis
        by (auto simp: re_d_def day_text_def in_range_01 in_range_12 nonzero_digit_def)
    next
      case 4
      then show ?thesis
        by (auto simp: re_d_def day_text_def)
    qed
  qed
  then show ?thesis
    by (simp only: lang_by_rmatch)
qed

lemma lang_re_m: "t \<in> lang re_m \<longleftrightarrow> month_text t"
proof -
  have "(t, []) \<in> set (rmatch re_m t) \<longleftrightarrow> month_text t"
  proof -
    consider "t = []" | a where "t = [a]" | a b where "t = [a, b]"
      | a b c u where "t = a # b # c # u"
      by (metis list.exhaust)
    then show ?thesis
    proof cases
      case 1
      then show ?thesis by (simp add: re_m_def month_text_def)
    next
      case 2
      then show ?thesis
        by (simp add: re_m_def month_text_def nonzero_digit_def)
    next
      case 3
      then show ?thesis
        by (auto simp: re_m_def month_text_def in_range_02 nonzero_digit_def)
    next
      case 4
      then show ?thesis
        by (auto simp: re_m_def month_text_def)
    qed
  qed
  then show ?thesis
    by (simp only: lang_by_rmatch)
qed

lemma lang_re_Y: "t \<in> lang re_Y \<longleftrightarrow> year_text t"
proof -
  have "(t, []) \<in> set (rmatch re_Y t) \<longleftrightarrow> year_text t"
  proof -
    consider "t = []" | a where "t = [a]" | a b where "t = [a, b]"
      | a b c where "t = [a, b, c]" | a b c d where "t = [a, b, c, d]"
      | a b c d e u where "t = a # b # c # d # e # u"
      by (metis list.exhaust)
    then show ?thesis
      by cases (auto simp: re_Y_def year_text_def)
  qed
  then show ?thesis
    by (simp only: lang_by_rmatch)
qed

lemma lang_re_dot: "t \<in> lang re_dot \<longleftrightarrow> t = lit ''.''"
  by (simp add: re_dot_def)

lemma format_matches_chain:
  "(d, m, y, r) \<in> set (format_matches s) \<longleftrightarrow>
        (\<exists>r1 dot1 r2 r3 dot2 r4.
           (d, r1) \<in> set (rmatch re_d s) \<and> (dot1, r2) \<in> set (rmatch re_dot r1) \<and>
           (m, r3) \<in> set (rmatch re_m r2) \<and> (dot2, r4) \<in> set (rmatch re_dot r3) \<and>
           (y, r) \<in> set (rmatch re_Y r4))"
  unfolding format_matches_def by (simp add: Bex_def image_iff) blast

lemma format_matches_iff:
  "(d, m, y, r) \<in> set (format_matches s) \<longleftrightarrow>
     s = d @ lit ''.'' @ m @ lit ''.'' @ y @ r \<and> day_text d \<and> month_text m \<and> year_text y"
  unfolding format_matches_chain
  by (simp add: rmatch_iff lang_re_d lang_re_m lang_re_Y lang_re_dot)

lemma day_text_no_dot: "day_text t \<Longrightarrow> L CHR ''.'' \<notin> set t"
  by (auto simp: day_text_def nonzero_digit_def in_range_def isdecimal_char_def ord_def
      split: list.splits)

lemma month_text_no_dot: "month_text t \<Longrightarrow> L CHR ''.'' \<notin> set t"
  by (auto simp: month_text_def nonzero_digit_def in_range_def ord_def split: list.splits)

lemma split_at_first:
  "c \<notin> set a \<Longrightarrow> c \<notin> set a' \<Longrightarrow> a @ c # b = a' @ c # b' \<Longrightarrow> a = a' \<and> b = b'"
proof (induction a arbitrary: a')
  case Nil
  then show ?case by (cases a') auto
next
  case (Cons x a)
  then show ?case by (cases a') auto
qed

lemma format_matches_unique:
  assumes "(d, m, y, r) \<in> set (format_matches s)" and "(d', m', y', r') \<in> set (format_matches s)"
  shows "d = d' \<and> m = m' \<and> y = y' \<and> r = r'"
proof -
  from assms have s1: "s = d @ L CHR ''.'' # (m @ L CHR ''.'' # (y @ r))"
    and s2: "s = d' @ L CHR ''.'' # (m' @ L CHR ''.'' # (y' @ r'))"
    and t: "day_text d" "day_text d'" "month_text m" "month_text m'" "year_text y" "year_text y'"
    by (simp_all add: format_matches_iff)
  have d: "d = d' \<and> m @ L CHR ''.'' # (y @ r) = m' @ L CHR ''.'' # (y' @ r')"
    using split_at_first [OF day_text_no_dot [OF t(1)] day_text_no_dot [OF t(2)]] s1 s2
    by metis
  then have m: "m = m' \<and> y @ r = y' @ r'"
    using split_at_first [OF month_text_no_dot [OF t(3)] month_text_no_dot [OF t(4)]]
    by metis
  then have "y = y' \<and> r = r'"
    using t(5,6) by (simp add: year_text_def)
  with d m show ?thesis by simp
qed

lemma date_new_iff:
  "date_new y m d = Inr dt \<longleftrightarrow> real_date y m d \<and> dt = \<lparr>year = y, month = m, day = d\<rparr>"
  by (auto simp: date_new_def real_date_def MINYEAR_def MAXYEAR_def)

lemma date_new_error: "date_new y m d = Inl e \<Longrightarrow> \<exists>msg. e = ValueError msg"
  by (auto simp: date_new_def split: if_splits)

lemma strptime_error: "strptime s = Inl e \<Longrightarrow> \<exists>msg. e = ValueError msg"
  by (auto simp: strptime_def split: list.splits if_splits dest: date_new_error)

lemma strptime_iff:
  "strptime s = Inr dt \<longleftrightarrow>
     (\<exists>d m y. s = d @ lit ''.'' @ m @ lit ''.'' @ y \<and> day_text d \<and> month_text m \<and> year_text y \<and>
              real_date (int_of_str y) (int_of_str m) (int_of_str d) \<and>
              dt = \<lparr>year = int_of_str y, month = int_of_str m, day = int_of_str d\<rparr>)"
proof
  assume ok: "strptime s = Inr dt"
  then obtain d m y rest ms where ms: "format_matches s = (d, m, y, rest) # ms"
    by (auto simp: strptime_def split: list.splits)
  with ok have rest: "rest = []"
    and new: "date_new (int_of_str y) (int_of_str m) (int_of_str d) = Inr dt"
    by (auto simp: strptime_def split: if_splits)
  have "(d, m, y, rest) \<in> set (format_matches s)"
    using ms by simp
  then have "s = d @ lit ''.'' @ m @ lit ''.'' @ y \<and> day_text d \<and> month_text m \<and> year_text y"
    using rest by (simp add: format_matches_iff)
  with new show "\<exists>d m y. s = d @ lit ''.'' @ m @ lit ''.'' @ y \<and> day_text d \<and> month_text m \<and>
      year_text y \<and> real_date (int_of_str y) (int_of_str m) (int_of_str d) \<and>
      dt = \<lparr>year = int_of_str y, month = int_of_str m, day = int_of_str d\<rparr>"
    unfolding date_new_iff by blast
next
  assume "\<exists>d m y. s = d @ lit ''.'' @ m @ lit ''.'' @ y \<and> day_text d \<and> month_text m \<and>
      year_text y \<and> real_date (int_of_str y) (int_of_str m) (int_of_str d) \<and>
      dt = \<lparr>year = int_of_str y, month = int_of_str m, day = int_of_str d\<rparr>"
  then obtain d m y where s: "s = d @ lit ''.'' @ m @ lit ''.'' @ y"
    and t: "day_text d" "month_text m" "year_text y"
    and new: "date_new (int_of_str y) (int_of_str m) (int_of_str d) = Inr dt"
    unfolding date_new_iff by blast
  have mem: "(d, m, y, []) \<in> set (format_matches s)"
    using s t by (simp add: format_matches_iff)
  then obtain d' m' y' r' ms where ms: "format_matches s = (d', m', y', r') # ms"
    by (cases "format_matches s") auto
  then have "(d', m', y', r') \<in> set (format_matches s)"
    by simp
  from format_matches_unique [OF this mem] have "d' = d \<and> m' = m \<and> y' = y \<and> r' = []" .
  with ms new show "strptime s = Inr dt"
    by (simp add: strptime_def)
qed

lemma ord_literals:
  "x = CHR ''0'' \<longleftrightarrow> ord x = 48" "x = CHR ''1'' \<longleftrightarrow> ord x = 49"
  "x = CHR ''2'' \<longleftrightarrow> ord x = 50" "x = CHR ''3'' \<longleftrightarrow> ord x = 51"
  "x = CHR '' '' \<longleftrightarrow> ord x = 32"
  using ord_eq_iff [of x "CHR ''0''"] ord_eq_iff [of x "CHR ''1''"] ord_eq_iff [of x "CHR ''2''"]
    ord_eq_iff [of x "CHR ''3''"] ord_eq_iff [of x "CHR '' ''"]
  by (simp_all add: ord_def)

lemma ord_values: "ord CHR ''0'' = 48" "ord CHR ''1'' = 49" "ord CHR ''9'' = 57"
  by (simp_all add: ord_def)

lemma ascii_digit_iff: "ascii_digit x \<longleftrightarrow> (\<exists>c. x = L c \<and> 48 \<le> ord c \<and> ord c \<le> 57)"
  by (cases x) (simp_all add: ascii_digit_def in_range_def ord_values)

lemma ascii_digit_decimal: "ascii_digit x \<Longrightarrow> isdecimal_char x"
  by (auto simp: ascii_digit_iff isdecimal_char_def)

lemma day_text_ord:
  "day_text [L a, L b] \<longleftrightarrow>
     ((ord a = 48 \<or> ord a = 32) \<and> 49 \<le> ord b \<and> ord b \<le> 57) \<or>
     ((ord a = 49 \<or> ord a = 50) \<and> 48 \<le> ord b \<and> ord b \<le> 57) \<or>
     (ord a = 51 \<and> (ord b = 48 \<or> ord b = 49))"
  by (simp only: day_text_def list.case uchar.inject uchar.case ord_literals nonzero_digit_def
      in_range_def isdecimal_char_def ord_values)

lemma month_text_ord:
  "month_text [L a, L b] \<longleftrightarrow>
     (ord a = 48 \<and> 49 \<le> ord b \<and> ord b \<le> 57) \<or>
     (ord a = 49 \<and> (ord b = 48 \<or> ord b = 49 \<or> ord b = 50))"
  by (simp only: month_text_def list.case uchar.inject uchar.case ord_literals nonzero_digit_def
      in_range_def ord_values)

lemma int_of_two_digits:
  "48 \<le> ord a \<Longrightarrow> int_of_str [L a, L b] = 10 * (int (ord a) - 48) + (int (ord b) - 48)"
  by (auto simp: int_of_str_def digit_value_def ord_def)

lemma two_digit_day:
  assumes "ascii_digit a" "ascii_digit b"
    and "1 \<le> int_of_str [a, b]" "int_of_str [a, b] \<le> 31"
  shows "day_text [a, b]"
proof -
  from assms(1,2) obtain ca cb where ab: "a = L ca" "b = L cb"
    and r: "48 \<le> ord ca" "ord ca \<le> 57" "48 \<le> ord cb" "ord cb \<le> 57"
    by (auto simp: ascii_digit_iff)
  show ?thesis
    using assms(3,4) r unfolding ab day_text_ord int_of_two_digits [OF r(1)]
    by arith
qed

lemma two_digit_month:
  assumes "ascii_digit a" "ascii_digit b"
    and "1 \<le> int_of_str [a, b]" "int_of_str [a, b] \<le> 12"
  shows "month_text [a, b]"
proof -
  from assms(1,2) obtain ca cb where ab: "a = L ca" "b = L cb"
    and r: "48 \<le> ord ca" "ord ca \<le> 57" "48 \<le> ord cb" "ord cb \<le> 57"
    by (auto simp: ascii_digit_iff)
  show ?thesis
    using assms(3,4) r unfolding ab month_text_ord int_of_two_digits [OF r(1)]
    by arith
qed

lemma month_cases:
  "1 \<le> m \<Longrightarrow> m \<le> 12 \<Longrightarrow>
   m = 1 \<or> m = 2 \<or> m = 3 \<or> m = 4 \<or> m = 5 \<or> m = 6 \<or> m = 7 \<or> m = 8 \<or> m = 9 \<or> m = 10 \<or>
   m = 11 \<or> m = (12::int)"
  by arith

lemma days_in_month_bounds:
  assumes "1 \<le> m" "m \<le> 12"
  shows "28 \<le> days_in_month y m \<and> days_in_month y m \<le> 31"
  using month_cases [OF assms]
  by (auto simp: days_in_month_def DAYS_IN_MONTH_def)

lemma dd_mm_yyyy_accepted:
  assumes "dd_mm_yyyy s"
  shows "\<exists>d m y. s = d @ lit ''.'' @ m @ lit ''.'' @ y \<and> day_text d \<and> month_text m \<and> year_text y \<and>
           real_date (int_of_str y) (int_of_str m) (int_of_str d)"
proof -
  from assms have "length s = 10"
    by (simp add: dd_mm_yyyy_def)
  then obtain d1 d2 p1 m1 m2 p2 y1 y2 y3 y4 where s: "s = [d1, d2, p1, m1, m2, p2, y1, y2, y3, y4]"
    by (auto simp: length_Suc_conv numeral_eq_Suc)
  from assms have dots: "p1 = L CHR ''.''" "p2 = L CHR ''.''"
    and dig: "ascii_digit d1" "ascii_digit d2" "ascii_digit m1" "ascii_digit m2"
    and yr: "year_text [y1, y2, y3, y4]"
    and real: "real_date (int_of_str [y1, y2, y3, y4]) (int_of_str [m1, m2]) (int_of_str [d1, d2])"
    unfolding s by (simp_all add: dd_mm_yyyy_def year_text_def ascii_digit_decimal)
  from real have mb: "1 \<le> int_of_str [m1, m2]" "int_of_str [m1, m2] \<le> 12"
    by (simp_all add: real_date_def)
  from real days_in_month_bounds [OF mb, of "int_of_str [y1, y2, y3, y4]"]
  have db: "1 \<le> int_of_str [d1, d2]" "int_of_str [d1, d2] \<le> 31"
    by (simp_all add: real_date_def)
  have "s = [d1, d2] @ lit ''.'' @ [m1, m2] @ lit ''.'' @ [y1, y2, y3, y4]"
    using s dots by simp
  then show ?thesis
    using two_digit_day [OF dig(1,2) db] two_digit_month [OF dig(3,4) mb] yr real
    by blast
qed

text \<open>
  Claim C3, as amended. \<open>Birthday_init s\<close> succeeds if and only if \<open>s\<close> is a day, a
  dot, a month, a dot and a year that are a date of the calendar, where the day is
  written as 1 to 9, as 0 or a blank and then 1 to 9, as 1 or 2 and then any decimal
  digit, or as 30 or 31, the month as 1 to 9, 01 to 09 or 10 to 12, and the year with
  four decimal digits; a decimal digit is an ASCII digit or another decimal digit of
  Unicode, all other characters of the form are ASCII, and the numbers are read as
  \<^verbatim>\<open>int\<close> reads them. Every other string raises \<^verbatim>\<open>ValueError\<close> with the message
  "Invalid date format. Use DD.MM.YYYY". In particular every date of the calendar
  written as DD.MM.YYYY in ASCII digits is accepted.
\<close>

theorem Birthday_init_forms:
  "Birthday_init s =
     (if \<exists>d m y. s = d @ lit ''.'' @ m @ lit ''.'' @ y \<and> day_text d \<and> month_text m \<and>
                  year_text y \<and> real_date (int_of_str y) (int_of_str m) (int_of_str d)
      then Inr s else Inl (ValueError (lit ''Invalid date format. Use DD.MM.YYYY'')))
   \<and> (dd_mm_yyyy s \<longrightarrow> Birthday_init s = Inr s)"
proof -
  let ?form = "\<exists>d m y. s = d @ lit ''.'' @ m @ lit ''.'' @ y \<and> day_text d \<and> month_text m \<and>
                 year_text y \<and> real_date (int_of_str y) (int_of_str m) (int_of_str d)"
  have parsed: "(\<exists>dt. strptime s = Inr dt) \<longleftrightarrow> ?form"
    unfolding strptime_iff by blast
  have shape: "Birthday_init s =
     (if ?form then Inr s else Inl (ValueError (lit ''Invalid date format. Use DD.MM.YYYY'')))"
  proof (cases "strptime s")
    case (Inl e)
    with parsed have "\<not> ?form" by simp
    with Inl show ?thesis by (simp add: Birthday_init_def)
  next
    case (Inr dt)
    with parsed have "?form" by blast
    with Inr show ?thesis by (simp add: Birthday_init_def)
  qed
  moreover have "Birthday_init s = Inr s" if "dd_mm_yyyy s"
    using shape dd_mm_yyyy_accepted [OF that] by simp
  ultimately show ?thesis by blast
qed

lemmas strptime_eval_defs =
  strptime_def format_matches_def re_d_def re_m_def re_Y_def re_dot_def in_range_def
  isdecimal_char_def ord_def int_of_str_def digit_value_def date_new_def MINYEAR_def MAXYEAR_def
  days_in_month_def DAYS_IN_MONTH_def is_leap_def

lemma strptime_sample:
  "strptime (lit ''17.03.1990'') = Inr \<lparr>year = 1990, month = 3, day = 17\<rparr>"
  by (simp add: strptime_eval_defs)

text \<open>
  The year of the second string is written in Arabic-Indic digits (U+0661, U+0669,
  U+0669, U+0660). The day of the third string is the digit 1 and the Arabic-Indic
  digit three (U+0663), which is read as 13; the day of the fourth is that digit
  alone, which no form of a day allows.
\<close>

theorem Birthday_init_forms_witness:
  "dd_mm_yyyy (lit ''17.03.1990'')
   \<and> Birthday_init (lit ''17.03.1990'') = Inr (lit ''17.03.1990'')
   \<and> Birthday_init (lit ''17.03.'' @ [Nd 0x661 1, Nd 0x669 9, Nd 0x669 9, Nd 0x660 0]) =
        Inr (lit ''17.03.'' @ [Nd 0x661 1, Nd 0x669 9, Nd 0x669 9, Nd 0x660 0])
   \<and> strptime (lit ''1'' @ [Nd 0x663 3] @ lit ''.03.1990'') =
        Inr \<lparr>year = 1990, month = 3, day = 13\<rparr>
   \<and> Birthday_init (lit ''1'' @ [Nd 0x663 3] @ lit ''.03.1990'') =
        Inr (lit ''1'' @ [Nd 0x663 3] @ lit ''.03.1990'')
   \<and> Birthday_init ([Nd 0x663 3] @ lit ''.03.1990'') =
        Inl (ValueError (lit ''Invalid date format. Use DD.MM.YYYY''))"
proof -
  have d: "dd_mm_yyyy (lit ''17.03.1990'')"
    by (simp add: dd_mm_yyyy_def ascii_digit_def in_range_def ord_def int_of_str_def
        digit_value_def real_date_def days_in_month_def DAYS_IN_MONTH_def)
  have f: "\<exists>d m y. lit ''17.03.'' @ [Nd 0x661 1, Nd 0x669 9, Nd 0x669 9, Nd 0x660 0] =
             d @ lit ''.'' @ m @ lit ''.'' @ y \<and> day_text d \<and> month_text m \<and>
             year_text y \<and> real_date (int_of_str y) (int_of_str m) (int_of_str d)"
    by (intro exI [of _ "lit ''17''"] exI [of _ "lit ''03''"]
          exI [of _ "[Nd 0x661 1, Nd 0x669 9, Nd 0x669 9, Nd 0x660 0]"])
       (simp add: day_text_def month_text_def year_text_def nonzero_digit_def in_range_def
          isdecimal_char_def ord_def int_of_str_def digit_value_def real_date_def
          days_in_month_def DAYS_IN_MONTH_def)
  have a: "Birthday_init (lit ''17.03.1990'') = Inr (lit ''17.03.1990'')"
    using d Birthday_init_forms [of "lit ''17.03.1990''", THEN conjunct2] by simp
  have b: "Birthday_init (lit ''17.03.'' @ [Nd 0x661 1, Nd 0x669 9, Nd 0x669 9, Nd 0x660 0]) =
        Inr (lit ''17.03.'' @ [Nd 0x661 1, Nd 0x669 9, Nd 0x669 9, Nd 0x660 0])"
    using f Birthday_init_forms
        [of "lit ''17.03.'' @ [Nd 0x661 1, Nd 0x669 9, Nd 0x669 9, Nd 0x660 0]", THEN conjunct1]
    by simp
  have p: "strptime (lit ''1'' @ [Nd 0x663 3] @ lit ''.03.1990'') =
        Inr \<lparr>year = 1990, month = 3, day = 13\<rparr>"
    by (simp add: strptime_eval_defs)
  have c: "Birthday_init (lit ''1'' @ [Nd 0x663 3] @ lit ''.03.1990'') =
        Inr (lit ''1'' @ [Nd 0x663 3] @ lit ''.03.1990'')"
    by (simp add: Birthday_init_def strptime_eval_defs)
  have e: "Birthday_init ([Nd 0x663 3] @ lit ''.03.1990'') =
        Inl (ValueError (lit ''Invalid date format. Use DD.MM.YYYY''))"
    by (simp add: Birthday_init_def strptime_eval_defs)
  note parts = d a b p c e
  show ?thesis
    by (intro conjI) (rule parts)+
qed

text \<open>
  The claim as it was stated fails: "1.3.1990" has a one-digit day and a one-digit
  month, and is accepted.
\<close>

theorem Birthday_init_short_counterexample:
  "\<not> dd_mm_yyyy (lit ''1.3.1990'')
   \<and> Birthday_init (lit ''1.3.1990'') = Inr (lit ''1.3.1990'')"
  by (simp add: dd_mm_yyyy_def Birthday_init_def strptime_eval_defs)

subsection \<open>The calendar\<close>

lemma div_step:
  fixes y k :: int
  assumes k: "0 < k"
  shows "y div k = (y - 1) div k + (if y mod k = 0 then 1 else 0)"
proof (cases "y mod k = 0")
  case True
  have "y - 1 = k * (y div k - 1) + (k - 1)"
    using True mult_div_mod_eq [of k y] by (simp add: algebra_simps)
  then have "(y - 1) div k = y div k - 1"
    using k by (intro int_div_pos_eq [where r = "k - 1"]) auto
  with True show ?thesis by simp
next
  case False
  have r: "0 < y mod k" "y mod k < k"
    using False pos_mod_sign [OF k, of y] pos_mod_bound [OF k, of y] by linarith+
  have "y - 1 = k * (y div k) + (y mod k - 1)"
    using mult_div_mod_eq [of k y] by simp
  then have "(y - 1) div k = y div k"
    using r by (intro int_div_pos_eq [where r = "y mod k - 1"]) auto
  with False show ?thesis by simp
qed

lemma mod_chain:
  fixes y :: int
  shows "y mod 400 = 0 \<Longrightarrow> y mod 100 = 0" and "y mod 100 = 0 \<Longrightarrow> y mod 4 = 0"
proof -
  have "(100::int) dvd 400" and "(4::int) dvd 100"
    by simp_all
  then show "y mod 400 = 0 \<Longrightarrow> y mod 100 = 0" and "y mod 100 = 0 \<Longrightarrow> y mod 4 = 0"
    using dvd_trans [of 100 400 y] dvd_trans [of 4 100 y] by (simp_all add: mod_eq_0_iff_dvd)
qed

lemma leap_sum:
  fixes y a' b' c' x u v :: int
  shows "y * 365 + (a' + x) - (b' + u) + (c' + v) =
         (y - 1) * 365 + a' - b' + c' + (365 + x - u + v)"
  by (simp add: left_diff_distrib)

lemma leap_flags:
  assumes "p400 \<Longrightarrow> p100" and "p100 \<Longrightarrow> p4"
  shows "365 + (if p4 then 1 else 0) - (if p100 then 1 else 0) + (if p400 then 1 else (0::int)) =
         (if p4 \<and> (\<not> p100 \<or> p400) then 366 else 365)"
  using assms by (cases p4; cases p100; cases p400; simp)

lemma leap_count:
  fixes y a b c a' b' c' :: int
  assumes "a = a' + (if p4 then 1 else 0)" and "b = b' + (if p100 then 1 else 0)"
    and "c = c' + (if p400 then 1 else 0)" and "p400 \<Longrightarrow> p100" and "p100 \<Longrightarrow> p4"
  shows "y * 365 + a - b + c =
         (y - 1) * 365 + a' - b' + c' + (if p4 \<and> (\<not> p100 \<or> p400) then 366 else 365)"
  unfolding assms(1-3) leap_sum by (simp only: leap_flags [OF assms(4,5)])

lemma days_before_year_Suc:
  "days_before_year (y + 1) = days_before_year y + (if is_leap y then 366 else 365)"
proof -
  have d4: "y div 4 = (y - 1) div 4 + (if y mod 4 = 0 then 1 else 0)"
    by (rule div_step) simp
  have d100: "y div 100 = (y - 1) div 100 + (if y mod 100 = 0 then 1 else 0)"
    by (rule div_step) simp
  have d400: "y div 400 = (y - 1) div 400 + (if y mod 400 = 0 then 1 else 0)"
    by (rule div_step) simp
  have "y * 365 + y div 4 - y div 100 + y div 400 =
        (y - 1) * 365 + (y - 1) div 4 - (y - 1) div 100 + (y - 1) div 400 +
        (if y mod 4 = 0 \<and> (\<not> y mod 100 = 0 \<or> y mod 400 = 0) then 366 else 365)"
    by (rule leap_count [OF d4 d100 d400 mod_chain])
  then show ?thesis
    by (simp only: days_before_year_def Let_def is_leap_def add_diff_cancel_right')
qed

lemma days_before_month_Suc:
  assumes "1 \<le> m" "m < 12"
  shows "days_before_month y (m + 1) = days_before_month y m + days_in_month y m"
proof -
  have "m \<le> 12" using assms by simp
  from month_cases [OF assms(1) this] assms(2) show ?thesis
    by (auto simp: days_before_month_def days_in_month_def DAYS_BEFORE_MONTH_def
        DAYS_IN_MONTH_def)
qed

lemma days_before_month_12: "days_before_month y 12 + 31 = (if is_leap y then 366 else 365)"
  by (simp add: days_before_month_def DAYS_BEFORE_MONTH_def)

lemma days_in_month_12: "days_in_month y 12 = 31"
  by (simp add: days_in_month_def DAYS_IN_MONTH_def)

lemma days_before_month_1: "days_before_month y 1 = 0"
  by (simp add: days_before_month_def DAYS_BEFORE_MONTH_def)

lemma days_before_month_nonneg:
  assumes "1 \<le> m" "m \<le> 12"
  shows "0 \<le> days_before_month y m"
  using month_cases [OF assms]
  by (auto simp: days_before_month_def DAYS_BEFORE_MONTH_def)

lemma year_length:
  assumes "1 \<le> m" "m \<le> 12"
  shows "days_before_month y m + days_in_month y m \<le> (if is_leap y then 366 else 365)"
  using month_cases [OF assms]
  by (auto simp: days_before_month_def days_in_month_def DAYS_BEFORE_MONTH_def
      DAYS_IN_MONTH_def)

lemma days_before_year_step_le: "days_before_year y \<le> days_before_year (y + 1)"
  by (simp add: days_before_year_Suc)

lemma days_before_year_add: "days_before_year y \<le> days_before_year (y + int n)"
proof (induction n)
  case 0
  then show ?case by simp
next
  case (Suc n)
  have "days_before_year (y + int n) \<le> days_before_year (y + int n + 1)"
    by (rule days_before_year_step_le)
  with Suc show ?case by (simp add: ac_simps)
qed

lemma days_before_year_mono:
  assumes "y \<le> y'"
  shows "days_before_year y \<le> days_before_year y'"
proof -
  have "y' = y + int (nat (y' - y))"
    using assms by simp
  then show ?thesis
    using days_before_year_add [of y "nat (y' - y)"] by simp
qed

lemma days_before_year_1: "days_before_year 1 = 0"
  by (simp add: days_before_year_def)

lemma days_before_year_10000: "days_before_year 10000 = 3652059"
  by (simp add: days_before_year_def)

lemma date_valid_fields:
  "date_valid dt \<Longrightarrow>
     1 \<le> year dt \<and> year dt \<le> 9999 \<and> 1 \<le> month dt \<and> month dt \<le> 12 \<and>
     1 \<le> day dt \<and> day dt \<le> days_in_month (year dt) (month dt)"
  by (simp add: date_valid_def real_date_def)

lemma toordinal_bounds:
  assumes "date_valid dt"
  shows "1 \<le> toordinal dt \<and> toordinal dt \<le> MAXORDINAL"
proof -
  note f = date_valid_fields [OF assms]
  have lo: "0 \<le> days_before_year (year dt)"
    using days_before_year_mono [of 1 "year dt"] f by (simp add: days_before_year_1)
  have mo: "0 \<le> days_before_month (year dt) (month dt)"
    using days_before_month_nonneg f by simp
  have "days_before_month (year dt) (month dt) + day dt \<le>
        (if is_leap (year dt) then 366 else 365)"
    using year_length [of "month dt" "year dt"] f by simp
  then have "toordinal dt \<le> days_before_year (year dt + 1)"
    by (simp add: toordinal_def ymd2ord_def days_before_year_Suc)
  also have "\<dots> \<le> days_before_year 10000"
    using f by (intro days_before_year_mono) simp
  finally have hi: "toordinal dt \<le> MAXORDINAL"
    by (simp add: days_before_year_10000 MAXORDINAL_def)
  have "1 \<le> toordinal dt"
    using lo mo f by (simp add: toordinal_def ymd2ord_def)
  with hi show ?thesis by simp
qed

lemma toordinal_last_day:
  "toordinal \<lparr>year = 9999, month = 12, day = 31\<rparr> = MAXORDINAL"
  by (simp add: toordinal_def ymd2ord_def days_before_year_def days_before_month_def
      DAYS_BEFORE_MONTH_def is_leap_def MAXORDINAL_def)

lemma next_day_step:
  assumes v: "date_valid dt" and below: "toordinal dt < MAXORDINAL"
  shows "date_valid (next_day dt) \<and> toordinal (next_day dt) = toordinal dt + 1"
proof -
  note f = date_valid_fields [OF v]
  consider (day) "day dt < days_in_month (year dt) (month dt)"
    | (month) "day dt = days_in_month (year dt) (month dt)" "month dt < 12"
    | (year) "day dt = days_in_month (year dt) (month dt)" "month dt = 12"
    using f by linarith
  then show ?thesis
  proof cases
    case day
    then show ?thesis
      using f by (simp add: next_day_def date_valid_def real_date_def toordinal_def ymd2ord_def)
  next
    case month
    have "1 \<le> days_in_month (year dt) (month dt + 1)"
      using days_in_month_bounds [of "month dt + 1" "year dt"] f month by simp
    then show ?thesis
      using f month days_before_month_Suc [of "month dt" "year dt"]
      by (simp add: next_day_def date_valid_def real_date_def toordinal_def ymd2ord_def)
  next
    case year
    then have d: "day dt = 31"
      by (simp add: days_in_month_12)
    have "year dt \<noteq> 9999"
    proof
      assume "year dt = 9999"
      then have "dt = \<lparr>year = 9999, month = 12, day = 31\<rparr>"
        using year d by simp
      then show False
        using below toordinal_last_day by simp
    qed
    then have y: "year dt + 1 \<le> 9999"
      using f by simp
    have "days_before_year (year dt + 1) =
          days_before_year (year dt) + days_before_month (year dt) 12 + 31"
      by (simp add: days_before_year_Suc days_before_month_12 [symmetric] del: days_before_month_12)
    then show ?thesis
      using f year d y
      by (simp add: next_day_def date_valid_def real_date_def toordinal_def ymd2ord_def
          days_before_month_1 days_in_month_def DAYS_IN_MONTH_def)
  qed
qed

lemma weekday_range: "0 \<le> weekday dt \<and> weekday dt < 7"
  by (simp add: weekday_def)

lemma saturday_arith:
  fixes t :: int
  assumes "(t + 6) mod 7 = 5" and "t \<le> 3652059"
  shows "t + 2 \<le> 3652059 \<and> (t + 2 + 6) mod 7 = 0"
  using assms by presburger

lemma sunday_arith:
  fixes t :: int
  assumes "(t + 6) mod 7 = 6" and "t \<le> 3652059"
  shows "t + 1 \<le> 3652059 \<and> (t + 1 + 6) mod 7 = 0"
  using assms by presburger

text \<open>
  The ordinal of a date grows with the date, so two dates with the same ordinal are
  the same date; \<open>date_add_days\<close> returns the date whose ordinal is \<open>n\<close> more, which
  is therefore the date that \<^verbatim>\<open>date.fromordinal\<close> returns for that ordinal.
\<close>

lemma days_before_month_mono:
  assumes "1 \<le> m" "m < m'" "m' \<le> 12"
  shows "days_before_month y m + days_in_month y m \<le> days_before_month y m'"
proof -
  have a: "m \<le> 12" and b: "1 \<le> m'"
    using assms by simp_all
  from month_cases [OF assms(1) a] month_cases [OF b assms(3)] assms(2) show ?thesis
    by (elim disjE; simp add: days_before_month_def days_in_month_def DAYS_BEFORE_MONTH_def
        DAYS_IN_MONTH_def)
qed

lemma toordinal_less:
  assumes a: "date_valid a" and b: "date_valid b" and less: "date_less a b"
  shows "toordinal a < toordinal b"
proof -
  note fa = date_valid_fields [OF a] and fb = date_valid_fields [OF b]
  consider (year) "year a < year b"
    | (month) "year a = year b" "month a < month b"
    | (day) "year a = year b" "month a = month b" "day a < day b"
    using less by (auto simp: date_less_def)
  then show ?thesis
  proof cases
    case year
    have "days_before_month (year a) (month a) + day a \<le>
          (if is_leap (year a) then 366 else 365)"
      using year_length [of "month a" "year a"] fa by simp
    then have "toordinal a \<le> days_before_year (year a + 1)"
      by (simp add: toordinal_def ymd2ord_def days_before_year_Suc)
    also have "\<dots> \<le> days_before_year (year b)"
      using year by (intro days_before_year_mono) simp
    also have "\<dots> < toordinal b"
      using days_before_month_nonneg [of "month b" "year b"] fb
      by (simp add: toordinal_def ymd2ord_def)
    finally show ?thesis .
  next
    case month
    have "days_before_month (year a) (month a) + days_in_month (year a) (month a)
          \<le> days_before_month (year a) (month b)"
      using month fa fb by (intro days_before_month_mono) simp_all
    then show ?thesis
      using month fa fb by (simp add: toordinal_def ymd2ord_def)
  next
    case day
    then show ?thesis
      by (simp add: toordinal_def ymd2ord_def)
  qed
qed

lemma date_less_total: "a = b \<or> date_less a b \<or> date_less b (a::date)"
  by (cases a; cases b) (auto simp: date_less_def)

lemma toordinal_inj:
  assumes "date_valid a" and "date_valid b" and "toordinal a = toordinal b"
  shows "a = b"
  using date_less_total [of a b] toordinal_less [OF assms(1,2)] toordinal_less [OF assms(2,1)]
    assms(3)
  by auto

lemma date_add_days_unique:
  assumes v: "date_valid p" and r: "date_add_days p n = Inr q" and n: "0 \<le> n"
  shows "date_valid q \<and> toordinal q = toordinal p + n"
proof -
  from r have hi: "toordinal p + n \<le> MAXORDINAL" and q: "q = (next_day ^^ nat n) p"
    by (auto simp: date_add_days_def Let_def split: if_splits)
  have "int k \<le> n \<Longrightarrow>
        date_valid ((next_day ^^ k) p) \<and> toordinal ((next_day ^^ k) p) = toordinal p + int k"
    for k
  proof (induction k)
    case 0
    then show ?case using v by simp
  next
    case (Suc k)
    then have ih: "date_valid ((next_day ^^ k) p)"
      "toordinal ((next_day ^^ k) p) = toordinal p + int k"
      by simp_all
    have "toordinal ((next_day ^^ k) p) < MAXORDINAL"
      using ih(2) Suc.prems hi by simp
    from next_day_step [OF ih(1) this] ih(2) show ?case
      by simp
  qed
  from this [of "nat n"] n q show ?thesis
    by simp
qed

subsection \<open>Upcoming birthdays\<close>

lemma upcoming_loop_Cons:
  "upcoming_loop today (r # rs) upcoming =
     (case upcoming_step today r of
        Inl e \<Rightarrow> Inl e
      | Inr None \<Rightarrow> upcoming_loop today rs upcoming
      | Inr (Some item) \<Rightarrow> upcoming_loop today rs (upcoming @ [item]))"
  by (simp add: upcoming_step_def Let_def split: option.splits sum.splits)

declare upcoming_loop.simps(2) [simp del]

lemma replace_year_iff:
  "replace_year dt y = Inr dt' \<longleftrightarrow>
     real_date y (month dt) (day dt) \<and> dt' = \<lparr>year = y, month = month dt, day = day dt\<rparr>"
  by (simp add: replace_year_def date_new_iff)

lemma replace_year_error: "replace_year dt y = Inl e \<Longrightarrow> \<exists>msg. e = ValueError msg"
  unfolding replace_year_def by (rule date_new_error)

lemma replace_year_valid: "replace_year dt y = Inr dt' \<Longrightarrow> date_valid dt'"
  by (auto simp: replace_year_iff date_valid_def)

lemma next_day_twice: "(next_day ^^ 2) p = next_day (next_day p)"
  by (simp add: numeral_2_eq_2)

lemma next_day_once: "(next_day ^^ nat 1) p = next_day p"
  by simp

lemma shift_ok:
  assumes v: "date_valid p"
  shows "(if 5 \<le> weekday p then date_add_days p (7 - weekday p) else Inr p) =
         Inr (congratulation_date p)"
proof -
  note b = toordinal_bounds [OF v]
  consider (sat) "weekday p = 5" | (sun) "weekday p = 6" | (work) "weekday p < 5"
    using weekday_range [of p] by linarith
  then show ?thesis
  proof cases
    case sat
    then have "toordinal p + 2 \<le> 3652059"
      using saturday_arith [of "toordinal p"] b by (simp add: weekday_def MAXORDINAL_def)
    then show ?thesis
      using sat b by (simp add: date_add_days_def congratulation_date_def MAXORDINAL_def
          next_day_twice)
  next
    case sun
    then have "toordinal p + 1 \<le> 3652059"
      using sunday_arith [of "toordinal p"] b by (simp add: weekday_def MAXORDINAL_def)
    then show ?thesis
      using sun b by (simp add: date_add_days_def congratulation_date_def MAXORDINAL_def)
  next
    case work
    then show ?thesis
      by (simp add: congratulation_date_def)
  qed
qed

lemma shift_facts:
  assumes v: "date_valid p"
  shows "(weekday p = 5 \<longrightarrow>
            toordinal (congratulation_date p) = toordinal p + 2 \<and>
            weekday (congratulation_date p) = 0)
       \<and> (weekday p = 6 \<longrightarrow>
            toordinal (congratulation_date p) = toordinal p + 1 \<and>
            weekday (congratulation_date p) = 0)
       \<and> (weekday p < 5 \<longrightarrow> congratulation_date p = p)"
proof -
  note b = toordinal_bounds [OF v]
  have sat: "toordinal (congratulation_date p) = toordinal p + 2 \<and>
             weekday (congratulation_date p) = 0" if w: "weekday p = 5"
  proof -
    have a: "toordinal p + 2 \<le> 3652059 \<and> (toordinal p + 2 + 6) mod 7 = 0"
      using saturday_arith [of "toordinal p"] b w by (simp add: weekday_def MAXORDINAL_def)
    then have "toordinal p < MAXORDINAL"
      by (simp add: MAXORDINAL_def)
    from next_day_step [OF v this]
    have n1: "date_valid (next_day p)" "toordinal (next_day p) = toordinal p + 1"
      by simp_all
    have "toordinal (next_day p) < MAXORDINAL"
      using a n1 by (simp add: MAXORDINAL_def)
    from next_day_step [OF n1(1) this] n1
    have "toordinal (next_day (next_day p)) = toordinal p + 2"
      by simp
    with a w show ?thesis
      by (simp add: congratulation_date_def weekday_def)
  qed
  have sun: "toordinal (congratulation_date p) = toordinal p + 1 \<and>
             weekday (congratulation_date p) = 0" if w: "weekday p = 6"
  proof -
    have a: "toordinal p + 1 \<le> 3652059 \<and> (toordinal p + 1 + 6) mod 7 = 0"
      using sunday_arith [of "toordinal p"] b w by (simp add: weekday_def MAXORDINAL_def)
    then have "toordinal p < MAXORDINAL"
      by (simp add: MAXORDINAL_def)
    from next_day_step [OF v this]
    have "toordinal (next_day p) = toordinal p + 1"
      by simp
    with a w show ?thesis
      by (simp add: congratulation_date_def weekday_def)
  qed
  show ?thesis
    using sat sun by (simp add: congratulation_date_def)
qed

lemma projected_ok:
  assumes "projectable today bday"
  shows "(case replace_year bday (year today) of
            Inl e \<Rightarrow> Inl e
          | Inr this_year \<Rightarrow>
              if date_less this_year today then replace_year this_year (year today + 1)
              else Inr this_year) = Inr (projected today bday)
         \<and> date_valid (projected today bday)"
proof -
  let ?t = "\<lparr>year = year today, month = month bday, day = day bday\<rparr>"
  have first: "replace_year bday (year today) = Inr ?t"
    using assms by (simp add: replace_year_iff projectable_def)
  show ?thesis
  proof (cases "date_less ?t today")
    case True
    then have "replace_year ?t (year today + 1) =
        Inr \<lparr>year = year today + 1, month = month bday, day = day bday\<rparr>"
      using assms by (simp add: replace_year_iff projectable_def)
    with True first assms show ?thesis
      by (simp add: projected_def projectable_def date_valid_def)
  next
    case False
    with first assms show ?thesis
      by (simp add: projected_def projectable_def date_valid_def)
  qed
qed

lemma upcoming_step_ok:
  assumes b: "birthday r = Some b" and d: "to_datetime b = Inr bday"
    and pr: "projectable today bday"
  shows "upcoming_step today r = Inr (upcoming_item today r)"
proof -
  let ?t = "\<lparr>year = year today, month = month bday, day = day bday\<rparr>"
  have first: "replace_year bday (year today) = Inr ?t"
    using pr by (simp add: replace_year_iff projectable_def)
  from projected_ok [OF pr] first
  have second: "(if date_less ?t today then replace_year ?t (year today + 1) else Inr ?t) =
                Inr (projected today bday)"
    and v: "date_valid (projected today bday)"
    by simp_all
  show ?thesis
    unfolding upcoming_step_def upcoming_item_def
    by (simp add: b d first second shift_ok [OF v] days_diff_def)
qed

lemma upcoming_step_error:
  assumes "upcoming_step today r = Inl e"
  shows "\<exists>msg. e = ValueError msg"
proof (cases "birthday r")
  case None
  with assms show ?thesis by (simp add: upcoming_step_def)
next
  case (Some b)
  show ?thesis
  proof (cases "to_datetime b")
    case (Inl e1)
    with assms Some have "e = e1" by (simp add: upcoming_step_def)
    with Inl show ?thesis using strptime_error by (simp add: to_datetime_def)
  next
    case bd: (Inr bday)
    show ?thesis
    proof (cases "replace_year bday (year today)")
      case (Inl e1)
      with assms Some bd have "e = e1" by (simp add: upcoming_step_def)
      with Inl show ?thesis using replace_year_error by blast
    next
      case ty: (Inr this_year)
      show ?thesis
      proof (cases "if date_less this_year today
                    then replace_year this_year (year today + 1) else Inr this_year")
        case (Inl e1)
        with assms Some bd ty have "e = e1" by (simp add: upcoming_step_def)
        with Inl show ?thesis using replace_year_error by (auto split: if_splits)
      next
        case (Inr bty)
        have "date_valid bty"
          using Inr ty replace_year_valid by (auto split: if_splits)
        from shift_ok [OF this] assms Some bd ty Inr show ?thesis
          by (simp add: upcoming_step_def split: if_splits)
      qed
    qed
  qed
qed

lemma upcoming_step_feb29:
  assumes "\<not> is_leap (year today)" and "birthday r = Some b" and "to_datetime b = Inr bday"
    and "month bday = 2" and "day bday = 29"
  shows "\<exists>e. upcoming_step today r = Inl e"
proof -
  have "\<not> real_date (year today) 2 29"
    using assms(1) by (simp add: real_date_def days_in_month_def DAYS_IN_MONTH_def)
  then obtain e where "replace_year bday (year today) = Inl e"
    using assms(4,5) replace_year_iff [of bday "year today"]
    by (cases "replace_year bday (year today)") auto
  with assms(2,3) show ?thesis
    by (simp add: upcoming_step_def)
qed

lemma upcoming_loop_error:
  "upcoming_loop today rs upcoming = Inl e \<Longrightarrow> \<exists>msg. e = ValueError msg"
proof (induction rs arbitrary: upcoming)
  case Nil
  then show ?case by simp
next
  case (Cons r rs)
  then show ?case
    by (auto simp: upcoming_loop_Cons split: sum.splits option.splits dest: upcoming_step_error)
qed

lemma upcoming_loop_feb29:
  assumes "\<not> is_leap (year today)" and "r \<in> set rs" and "birthday r = Some b"
    and "to_datetime b = Inr bday" and "month bday = 2" and "day bday = 29"
  shows "\<exists>e. upcoming_loop today rs upcoming = Inl e"
  using assms(2)
proof (induction rs arbitrary: upcoming)
  case Nil
  then show ?case by simp
next
  case (Cons r' rs)
  show ?case
  proof (cases "upcoming_step today r'")
    case (Inl e)
    then show ?thesis by (simp add: upcoming_loop_Cons)
  next
    case (Inr item)
    have "r' \<noteq> r"
      using Inr upcoming_step_feb29 [OF assms(1,3,4,5,6)] by auto
    with Cons.prems have "r \<in> set rs" by simp
    from Cons.IH [OF this] Inr show ?thesis
      by (cases item) (simp_all add: upcoming_loop_Cons)
  qed
qed

lemma upcoming_step_can_project:
  "can_project today r \<Longrightarrow> upcoming_step today r = Inr (upcoming_item today r)"
proof (cases "birthday r")
  case None
  then show ?thesis by (simp add: upcoming_step_def upcoming_item_def)
next
  case (Some b)
  assume "can_project today r"
  with Some obtain bday where "to_datetime b = Inr bday" "projectable today bday"
    by (auto simp: can_project_def split: sum.splits)
  with Some show ?thesis by (rule upcoming_step_ok)
qed

lemma upcoming_step_cannot_project:
  assumes "\<not> can_project today r"
  shows "\<exists>e. upcoming_step today r = Inl e"
proof -
  from assms obtain b where b: "birthday r = Some b"
    by (auto simp: can_project_def split: option.splits)
  show ?thesis
  proof (cases "to_datetime b")
    case (Inl e)
    with b show ?thesis by (simp add: upcoming_step_def)
  next
    case (Inr bday)
    with assms b have np: "\<not> projectable today bday"
      by (simp add: can_project_def)
    let ?t = "\<lparr>year = year today, month = month bday, day = day bday\<rparr>"
    show ?thesis
    proof (cases "replace_year bday (year today)")
      case (Inl e)
      with b Inr show ?thesis by (simp add: upcoming_step_def)
    next
      case ty: (Inr this_year)
      then have t: "this_year = ?t" and r1: "real_date (year today) (month bday) (day bday)"
        by (simp_all add: replace_year_iff)
      with np have less: "date_less ?t today"
        and r2: "\<not> real_date (year today + 1) (month bday) (day bday)"
        by (auto simp: projectable_def)
      from r2 obtain e where "replace_year ?t (year today + 1) = Inl e"
        using replace_year_iff [of ?t "year today + 1"]
        by (cases "replace_year ?t (year today + 1)") auto
      with b Inr ty t less show ?thesis
        by (simp add: upcoming_step_def)
    qed
  qed
qed

lemma upcoming_loop_cannot_project:
  assumes "\<not> list_all (can_project today) rs"
  shows "\<exists>e. upcoming_loop today rs upcoming = Inl e"
  using assms
proof (induction rs arbitrary: upcoming)
  case Nil
  then show ?case by simp
next
  case (Cons r rs)
  show ?case
  proof (cases "upcoming_step today r")
    case (Inl e)
    then show ?thesis by (simp add: upcoming_loop_Cons)
  next
    case (Inr item)
    then have "can_project today r"
      using upcoming_step_cannot_project [of today r] by auto
    with Cons.prems have "\<not> list_all (can_project today) rs" by simp
    from Cons.IH [OF this] Inr show ?thesis
      by (cases item) (simp_all add: upcoming_loop_Cons)
  qed
qed

lemma upcoming_loop_can_project:
  assumes "list_all (can_project today) rs"
  shows "upcoming_loop today rs upcoming = Inr (upcoming @ List.map_filter (upcoming_item today) rs)"
  using assms
proof (induction rs arbitrary: upcoming)
  case Nil
  then show ?case by (simp add: map_filter_simps)
next
  case (Cons r rs)
  then have step: "upcoming_step today r = Inr (upcoming_item today r)"
    by (simp add: upcoming_step_can_project)
  have rest: "upcoming_loop today rs acc = Inr (acc @ List.map_filter (upcoming_item today) rs)"
    for acc
    using Cons by simp
  show ?case
    by (cases "upcoming_item today r") (simp_all add: upcoming_loop_Cons step rest map_filter_simps)
qed

lemma date_less_ordinal:
  assumes "date_valid a" and "date_valid b"
  shows "date_less a b \<longleftrightarrow> toordinal a < toordinal b"
  using date_less_total [of a b] toordinal_less [OF assms] toordinal_less [OF assms(2,1)]
  by auto

lemma weekday_next_day:
  assumes "date_valid p" and "toordinal p < MAXORDINAL"
  shows "weekday (next_day p) = (weekday p + 1) mod 7"
proof -
  have "(t + 1 + 6) mod 7 = ((t + 6) mod 7 + 1) mod 7" for t :: int
    by presburger
  then show ?thesis
    using next_day_step [OF assms] by (simp add: weekday_def)
qed

lemma first_day: "toordinal \<lparr>year = 1, month = 1, day = 1\<rparr> = 1"
  "weekday \<lparr>year = 1, month = 1, day = 1\<rparr> = 0"
  by (simp_all add: weekday_def toordinal_def ymd2ord_def days_before_year_def
      days_before_month_def DAYS_BEFORE_MONTH_def)

lemma days_diff_nonneg:
  assumes t: "date_valid today" and p: "projectable today bday"
  shows "0 \<le> days_diff today bday"
proof -
  let ?t = "\<lparr>year = year today, month = month bday, day = day bday\<rparr>"
  have v: "date_valid ?t"
    using p by (simp add: projectable_def date_valid_def)
  show ?thesis
  proof (cases "date_less ?t today")
    case True
    let ?n = "\<lparr>year = year today + 1, month = month bday, day = day bday\<rparr>"
    have "date_valid ?n"
      using p True by (simp add: projectable_def date_valid_def)
    moreover have "date_less today ?n"
      by (simp add: date_less_def)
    ultimately have "toordinal today < toordinal ?n"
      using t toordinal_less by blast
    with True show ?thesis
      by (simp add: days_diff_def projected_def)
  next
    case False
    then have "\<not> toordinal ?t < toordinal today"
      using date_less_ordinal [OF v t] by simp
    with False show ?thesis
      by (simp add: days_diff_def projected_def)
  qed
qed

text \<open>
  Claim C1, as amended. When every record with a birthday can be projected (the
  birthday's month and day exist in the reference year, and in the next year when the
  date in the reference year is before the reference date), the query returns, in the
  order of the book, one item for exactly those records with a birthday whose
  projected date is 0 to 7 days after the reference date; the date of the item is the
  projected date, moved to the following Monday when it is a Saturday (by 2 days) or
  a Sunday (by 1 day). A birthday on the month and day of the reference date is
  projected onto the reference date itself, with difference 0, and no difference is
  negative.

  The last three parts tie the operations on dates to the count of days: one date is
  before another exactly when its ordinal is smaller, the next day has the next
  ordinal and the next day of the week, and 1 January of the year 1 is day 1, a
  Monday.
\<close>

theorem upcoming_birthdays_selection:
  "(list_all (can_project today) (map snd book) \<longrightarrow>
      get_upcoming_birthdays today book =
        Inr (List.map_filter (upcoming_item today) (map snd book)))
   \<and> (\<forall>p. date_valid p \<longrightarrow>
         (weekday p = 5 \<longrightarrow>
            toordinal (congratulation_date p) = toordinal p + 2 \<and>
            weekday (congratulation_date p) = 0) \<and>
         (weekday p = 6 \<longrightarrow>
            toordinal (congratulation_date p) = toordinal p + 1 \<and>
            weekday (congratulation_date p) = 0) \<and>
         (weekday p < 5 \<longrightarrow> congratulation_date p = p))
   \<and> (\<forall>bday. month bday = month today \<and> day bday = day today \<longrightarrow>
         projected today bday = today \<and> days_diff today bday = 0)
   \<and> (\<forall>bday. date_valid today \<and> projectable today bday \<longrightarrow> 0 \<le> days_diff today bday)
   \<and> (\<forall>a b. date_valid a \<and> date_valid b \<longrightarrow> (date_less a b \<longleftrightarrow> toordinal a < toordinal b))
   \<and> (\<forall>p. date_valid p \<and> toordinal p < MAXORDINAL \<longrightarrow>
         date_valid (next_day p) \<and> toordinal (next_day p) = toordinal p + 1 \<and>
         weekday (next_day p) = (weekday p + 1) mod 7)
   \<and> toordinal \<lparr>year = 1, month = 1, day = 1\<rparr> = 1
   \<and> weekday \<lparr>year = 1, month = 1, day = 1\<rparr> = 0"
proof -
  have result: "get_upcoming_birthdays today book =
           Inr (List.map_filter (upcoming_item today) (map snd book))"
    if "list_all (can_project today) (map snd book)"
    using upcoming_loop_can_project [OF that, of "[]"] by (simp add: get_upcoming_birthdays_def)
  have same: "projected today bday = today \<and> days_diff today bday = 0"
    if "month bday = month today \<and> day bday = day today" for bday
    using that by (simp add: projected_def days_diff_def date_less_def toordinal_def)
  have step: "date_valid (next_day p) \<and> toordinal (next_day p) = toordinal p + 1 \<and>
         weekday (next_day p) = (weekday p + 1) mod 7"
    if "date_valid p \<and> toordinal p < MAXORDINAL" for p
    using that next_day_step [of p] weekday_next_day [of p] by simp
  show ?thesis
    using result shift_facts same days_diff_nonneg date_less_ordinal step first_day
    by (intro conjI allI impI) blast+
qed

lemma strptime_eval_lit:
  "strptime (lit ''15.06.1990'') = Inr \<lparr>year = 1990, month = 6, day = 15\<rparr>"
  "strptime (lit ''12.06.1990'') = Inr \<lparr>year = 1990, month = 6, day = 12\<rparr>"
  "strptime (lit ''1.1.1990'') = Inr \<lparr>year = 1990, month = 1, day = 1\<rparr>"
  "strptime (lit ''29.02.2000'') = Inr \<lparr>year = 2000, month = 2, day = 29\<rparr>"
  "strptime (lit ''02.03.1990'') = Inr \<lparr>year = 1990, month = 3, day = 2\<rparr>"
  by (simp_all add: strptime_eval_defs)

lemmas strptime_eval = strptime_eval_lit [simplified]

lemma sample_dates:
  "toordinal \<lparr>year = 2024, month = 6, day = 10\<rparr> = 739047"
  "toordinal \<lparr>year = 2024, month = 6, day = 15\<rparr> = 739052"
  "toordinal \<lparr>year = 2024, month = 6, day = 12\<rparr> = 739049"
  "toordinal \<lparr>year = 2025, month = 1, day = 1\<rparr> = 739252"
  "toordinal \<lparr>year = 2024, month = 3, day = 1\<rparr> = 738946"
  "toordinal \<lparr>year = 2024, month = 3, day = 2\<rparr> = 738947"
  by (simp_all add: toordinal_def ymd2ord_def days_before_year_def days_before_month_def
      DAYS_BEFORE_MONTH_def is_leap_def)

lemma decimal_2024: "decimal 2024 = ''2024''"
  by (simp add: digit_char_def)

lemmas item_eval_defs =
  upcoming_item_def to_datetime_def strptime_eval days_diff_def projected_def date_less_def
  sample_dates congratulation_date_def weekday_def next_day_def days_in_month_def
  DAYS_IN_MONTH_def is_leap_def strftime_def dec2_def digit_char_def decimal_2024

theorem upcoming_birthdays_selection_witness:
  "get_upcoming_birthdays \<lparr>year = 2024, month = 6, day = 10\<rparr>
     [(lit ''alice'', \<lparr>name = lit ''alice'', phones = [lit ''1234567890''],
                        birthday = Some (lit ''15.06.1990'')\<rparr>),
      (lit ''bob'', \<lparr>name = lit ''bob'', phones = [], birthday = Some (lit ''12.06.1990'')\<rparr>),
      (lit ''carol'', \<lparr>name = lit ''carol'', phones = [], birthday = None\<rparr>),
      (lit ''dave'', \<lparr>name = lit ''dave'', phones = [], birthday = Some (lit ''1.1.1990'')\<rparr>)]
   = Inr [(lit ''alice'', lit ''17.06.2024''), (lit ''bob'', lit ''12.06.2024'')]"
proof -
  let ?today = "\<lparr>year = 2024, month = 6, day = 10\<rparr>"
  let ?alice = "\<lparr>name = lit ''alice'', phones = [lit ''1234567890''],
                  birthday = Some (lit ''15.06.1990'')\<rparr>"
  let ?bob = "\<lparr>name = lit ''bob'', phones = [], birthday = Some (lit ''12.06.1990'')\<rparr>"
  let ?carol = "\<lparr>name = lit ''carol'', phones = [], birthday = None\<rparr>"
  let ?dave = "\<lparr>name = lit ''dave'', phones = [], birthday = Some (lit ''1.1.1990'')\<rparr>"
  let ?book = "[(lit ''alice'', ?alice), (lit ''bob'', ?bob), (lit ''carol'', ?carol),
                (lit ''dave'', ?dave)]"
  have hyp: "list_all (can_project ?today) (map snd ?book)"
    by (simp add: can_project_def to_datetime_def strptime_eval projectable_def real_date_def
        date_less_def days_in_month_def DAYS_IN_MONTH_def)
  have alice: "upcoming_item ?today ?alice = Some (lit ''alice'', lit ''17.06.2024'')"
    by (simp add: item_eval_defs)
  have bob: "upcoming_item ?today ?bob = Some (lit ''bob'', lit ''12.06.2024'')"
    by (simp add: item_eval_defs)
  have carol: "upcoming_item ?today ?carol = None"
    by (simp add: upcoming_item_def)
  have dave: "upcoming_item ?today ?dave = None"
    by (simp add: item_eval_defs)
  note items = alice [simplified] bob [simplified] carol [simplified] dave [simplified]
  show ?thesis
    using hyp upcoming_birthdays_selection [of ?today ?book, THEN conjunct1]
    by (simp add: map_filter_simps items)
qed

text \<open>
  The claim as it was stated fails on a book that also holds a record that cannot be
  projected. On 1 March 2024 the birthday 02.03.1990 is one day away and would be
  congratulated on Monday, 04.03.2024; with a second record born on 29.02.2000, whose
  date in 2024 is before the reference date and does not exist in 2025, the query
  raises and returns no item at all.
\<close>

theorem upcoming_birthdays_leap_counterexample:
  "days_diff \<lparr>year = 2024, month = 3, day = 1\<rparr> \<lparr>year = 1990, month = 3, day = 2\<rparr> = 1
   \<and> upcoming_item \<lparr>year = 2024, month = 3, day = 1\<rparr>
        \<lparr>name = lit ''ok'', phones = [], birthday = Some (lit ''02.03.1990'')\<rparr> =
        Some (lit ''ok'', lit ''04.03.2024'')
   \<and> get_upcoming_birthdays \<lparr>year = 2024, month = 3, day = 1\<rparr>
        [(lit ''ok'', \<lparr>name = lit ''ok'', phones = [], birthday = Some (lit ''02.03.1990'')\<rparr>),
         (lit ''leap'', \<lparr>name = lit ''leap'', phones = [],
                          birthday = Some (lit ''29.02.2000'')\<rparr>)] =
        Inl (ValueError (lit ''day is out of range for month''))"
proof -
  let ?today = "\<lparr>year = 2024, month = 3, day = 1\<rparr>"
  let ?ok = "\<lparr>name = lit ''ok'', phones = [], birthday = Some (lit ''02.03.1990'')\<rparr>"
  let ?leap = "\<lparr>name = lit ''leap'', phones = [], birthday = Some (lit ''29.02.2000'')\<rparr>"
  have diff: "days_diff ?today \<lparr>year = 1990, month = 3, day = 2\<rparr> = 1"
    by (simp add: days_diff_def projected_def date_less_def sample_dates)
  have item: "upcoming_item ?today ?ok = Some (lit ''ok'', lit ''04.03.2024'')"
    by (simp add: item_eval_defs)
  have ok: "upcoming_step ?today ?ok = Inr (upcoming_item ?today ?ok)"
    by (rule upcoming_step_can_project)
       (simp add: can_project_def to_datetime_def strptime_eval projectable_def real_date_def
          date_less_def days_in_month_def DAYS_IN_MONTH_def)
  have leap: "upcoming_step ?today ?leap = Inl (ValueError (lit ''day is out of range for month''))"
    by (simp add: upcoming_step_def to_datetime_def strptime_eval replace_year_def date_new_def
        MINYEAR_def MAXYEAR_def days_in_month_def DAYS_IN_MONTH_def is_leap_def date_less_def)
  have "get_upcoming_birthdays ?today [(lit ''ok'', ?ok), (lit ''leap'', ?leap)] =
        Inl (ValueError (lit ''day is out of range for month''))"
    by (simp add: get_upcoming_birthdays_def upcoming_loop_Cons ok [simplified]
        item [simplified] leap [simplified])
  with diff item show ?thesis by simp
qed

text \<open>
  Claim C10. When the reference year is not a leap year and some record of the book
  has a birthday on 29 February, the query raises a \<^verbatim>\<open>ValueError\<close> instead of
  returning a list, and the birthdays command replies with the decorator's
  "Give me name and phone please.".
\<close>

theorem feb29_birthday_breaks_query:
  assumes "\<not> is_leap (year today)" and "(k, r) \<in> set book" and "birthday r = Some b"
    and "to_datetime b = Inr bday" and "month bday = 2" and "day bday = 29"
  shows "(\<exists>msg. get_upcoming_birthdays today book = Inl (ValueError msg))
     \<and> birthdays today (args, book) = (Inr (lit ''Give me name and phone please.''), book)"
proof -
  have "r \<in> set (map snd book)"
    using assms(2) by force
  from upcoming_loop_feb29 [OF assms(1) this assms(3-6)]
  obtain e where e: "get_upcoming_birthdays today book = Inl e"
    unfolding get_upcoming_birthdays_def by blast
  then obtain msg where msg: "e = ValueError msg"
    using upcoming_loop_error unfolding get_upcoming_birthdays_def by blast
  have "birthdays today (args, book) = (Inr (lit ''Give me name and phone please.''), book)"
    using e msg by (simp add: birthdays_def birthdays_body_def input_error_def)
  with e msg show ?thesis by simp
qed

theorem feb29_birthday_breaks_query_witness:
  "\<not> is_leap 2023
   \<and> to_datetime (lit ''29.02.2000'') = Inr \<lparr>year = 2000, month = 2, day = 29\<rparr>
   \<and> birthdays \<lparr>year = 2023, month = 6, day = 10\<rparr>
        ([], [(lit ''alice'', \<lparr>name = lit ''alice'', phones = [], birthday = Some (lit ''29.02.2000'')\<rparr>)])
      = (Inr (lit ''Give me name and phone please.''),
         [(lit ''alice'', \<lparr>name = lit ''alice'', phones = [], birthday = Some (lit ''29.02.2000'')\<rparr>)])"
proof -
  let ?r = "\<lparr>name = lit ''alice'', phones = [], birthday = Some (lit ''29.02.2000'')\<rparr>"
  have l: "\<not> is_leap (year \<lparr>year = 2023, month = 6, day = 10\<rparr>)"
    by (simp add: is_leap_def)
  have m: "(lit ''alice'', ?r) \<in> set [(lit ''alice'', ?r)]"
    by simp
  have b: "birthday ?r = Some (lit ''29.02.2000'')"
    by simp
  have d: "to_datetime (lit ''29.02.2000'') = Inr \<lparr>year = 2000, month = 2, day = 29\<rparr>"
    by (simp add: to_datetime_def strptime_eval)
  have f: "month \<lparr>year = 2000, month = 2, day = 29\<rparr> = 2" "day \<lparr>year = 2000, month = 2, day = 29\<rparr> = 29"
    by simp_all
  show ?thesis
    using l d feb29_birthday_breaks_query [OF l m b d f, of "[]"] by simp
qed

subsection \<open>The replies of the decorator\<close>

lemma input_error_KeyError:
  "func x = (Inl KeyError, s) \<Longrightarrow> input_error func x = (Inr (lit ''Contact not found.''), s)"
  by (simp add: input_error_def)

lemma input_error_ValueError:
  "func x = (Inl (ValueError msg), s) \<Longrightarrow>
   input_error func x = (Inr (lit ''Give me name and phone please.''), s)"
  by (simp add: input_error_def)

lemma input_error_IndexError:
  "func x = (Inl IndexError, s) \<Longrightarrow>
   input_error func x =
     (Inr (lit ''Invalid input. Please provide the correct number of arguments.''), s)"
  by (simp add: input_error_def)

lemma unpack2:
  "length args \<noteq> 2 \<Longrightarrow>
   (case args of [a, b] \<Rightarrow> f a b | _ \<Rightarrow> g) = g"
  by (auto split: list.splits)

lemma unpack3:
  "length args \<noteq> 3 \<Longrightarrow>
   (case args of [a, b, c] \<Rightarrow> f a b c | _ \<Rightarrow> g) = g"
  by (auto split: list.splits)

lemma add_contact_arity:
  "length args \<noteq> 2 \<Longrightarrow> add_contact_body (args, book) = (Inl unpack_error, book)"
  by (simp add: add_contact_body_def unpack2)

lemma remove_phone_command_arity:
  "length args \<noteq> 2 \<Longrightarrow> remove_phone_command_body (args, book) = (Inl unpack_error, book)"
  by (simp add: remove_phone_command_body_def unpack2)

lemma change_contact_arity:
  "length args \<noteq> 3 \<Longrightarrow> change_contact_body (args, book) = (Inl unpack_error, book)"
  by (simp add: change_contact_body_def unpack3)

lemma add_phone_error: "add_phone r p = (Inl e, r') \<Longrightarrow> \<exists>msg. e = ValueError msg"
  by (auto simp: add_phone_def Phone_init_def split: if_splits)

lemma remove_phone_error: "remove_phone r p = (Inl e, r') \<Longrightarrow> \<exists>msg. e = ValueError msg"
  by (auto simp: remove_phone_def split: option.splits)

lemma edit_phone_error: "edit_phone r old new = (Inl e, r') \<Longrightarrow> \<exists>msg. e = ValueError msg"
  by (auto simp: edit_phone_def split: if_splits prod.splits sum.splits
      dest: add_phone_error remove_phone_error)

lemma show_phone_index: "fst (show_phone_body (args, book)) = Inl IndexError \<longleftrightarrow> args = []"
  by (auto simp: show_phone_body_def split: list.splits option.splits)

lemma delet_index: "fst (delet_body (args, book)) = Inl IndexError \<longleftrightarrow> args = []"
  by (auto simp: delet_body_def book_delete_def split: list.splits)

lemma show_birthday_index:
  "fst (show_birthday_body (args, book)) = Inl IndexError \<longleftrightarrow> args = []"
  by (auto simp: show_birthday_body_def split: list.splits option.splits)

lemma add_contact_no_index: "fst (add_contact_body (args, book)) \<noteq> Inl IndexError"
proof (cases "length args = 2")
  case False
  then show ?thesis by (simp add: add_contact_arity unpack_error_def)
next
  case True
  then obtain n phone where args: "args = [n, phone]"
    by (auto simp: length_Suc_conv numeral_2_eq_2)
  obtain rcd book1 where rb: "(case book_find book n of
                      None \<Rightarrow> (Record_init n, add_record book (Record_init n))
                    | Some r \<Rightarrow> (r, book)) = (rcd, book1)"
    by fastforce
  obtain res r' where ap: "add_phone rcd phone = (res, r')"
    by fastforce
  show ?thesis
  proof (cases res)
    case (Inl e)
    with ap obtain msg where "e = ValueError msg"
      using add_phone_error by blast
    with Inl ap rb args show ?thesis
      by (simp add: add_contact_body_def)
  next
    case (Inr u)
    with ap rb args show ?thesis
      by (simp add: add_contact_body_def)
  qed
qed

lemma change_contact_no_index: "fst (change_contact_body (args, book)) \<noteq> Inl IndexError"
proof (cases "length args = 3")
  case False
  then show ?thesis by (simp add: change_contact_arity unpack_error_def)
next
  case True
  then obtain n old new where args: "args = [n, old, new]"
    by (auto simp: length_Suc_conv numeral_3_eq_3)
  show ?thesis
  proof (cases "book_find book n")
    case None
    with args show ?thesis by (simp add: change_contact_body_def)
  next
    case (Some rcd)
    obtain res r' where ep: "edit_phone rcd old new = (res, r')"
      by fastforce
    show ?thesis
    proof (cases res)
      case (Inl e)
      with ep obtain msg where "e = ValueError msg"
        using edit_phone_error by blast
      with Inl ep Some args show ?thesis
        by (simp add: change_contact_body_def)
    next
      case (Inr u)
      with ep Some args show ?thesis
        by (simp add: change_contact_body_def)
    qed
  qed
qed

lemma remove_phone_command_no_index:
  "fst (remove_phone_command_body (args, book)) \<noteq> Inl IndexError"
proof (cases "length args = 2")
  case False
  then show ?thesis by (simp add: remove_phone_command_arity unpack_error_def)
next
  case True
  then obtain n phone where args: "args = [n, phone]"
    by (auto simp: length_Suc_conv numeral_2_eq_2)
  show ?thesis
  proof (cases "book_find book n")
    case None
    with args show ?thesis by (simp add: remove_phone_command_body_def)
  next
    case (Some rcd)
    obtain res r' where rp: "remove_phone rcd phone = (res, r')"
      by fastforce
    show ?thesis
    proof (cases res)
      case (Inl e)
      with rp obtain msg where "e = ValueError msg"
        using remove_phone_error by blast
      with Inl rp Some args show ?thesis
        by (simp add: remove_phone_command_body_def)
    next
      case (Inr u)
      with rp Some args show ?thesis
        by (simp add: remove_phone_command_body_def)
    qed
  qed
qed

lemma show_all_no_index: "fst (show_all_body book) \<noteq> Inl IndexError"
  by (simp add: show_all_body_def)

lemma birthdays_no_index: "fst (birthdays_body today (args, book)) \<noteq> Inl IndexError"
proof (cases "get_upcoming_birthdays today book")
  case (Inl e)
  then obtain msg where "e = ValueError msg"
    using upcoming_loop_error unfolding get_upcoming_birthdays_def by blast
  with Inl show ?thesis by (simp add: birthdays_body_def)
next
  case (Inr upcoming)
  then show ?thesis by (simp add: birthdays_body_def)
qed

text \<open>
  Claim C5, as amended. Whatever the decorated function and its arguments, a
  \<^verbatim>\<open>KeyError\<close> that reaches the decorator becomes "Contact not found.", a
  \<^verbatim>\<open>ValueError\<close> becomes "Give me name and phone please." and an \<^verbatim>\<open>IndexError\<close>
  becomes "Invalid input. Please provide the correct number of arguments.". Among the
  commands add, change, phone, all, remove-phone, delet, show-birthday and birthdays,
  an \<^verbatim>\<open>IndexError\<close> is raised exactly by phone, delet and show-birthday called with
  no argument, which then reply with the third text; add and remove-phone called with
  other than two arguments and change called with other than three fail to unpack them,
  which is a \<^verbatim>\<open>ValueError\<close>, and reply "Give me name and phone please.", leaving
  the book as it was.
\<close>

theorem input_error_replies:
  "(func x = (Inl KeyError, s) \<longrightarrow> input_error func x = (Inr (lit ''Contact not found.''), s))
   \<and> (func x = (Inl (ValueError msg), s) \<longrightarrow>
        input_error func x = (Inr (lit ''Give me name and phone please.''), s))
   \<and> (func x = (Inl IndexError, s) \<longrightarrow>
        input_error func x =
          (Inr (lit ''Invalid input. Please provide the correct number of arguments.''), s))
   \<and> (fst (show_phone_body (args, book)) = Inl IndexError \<longleftrightarrow> args = [])
   \<and> (fst (delet_body (args, book)) = Inl IndexError \<longleftrightarrow> args = [])
   \<and> (fst (show_birthday_body (args, book)) = Inl IndexError \<longleftrightarrow> args = [])
   \<and> fst (add_contact_body (args, book)) \<noteq> Inl IndexError
   \<and> fst (change_contact_body (args, book)) \<noteq> Inl IndexError
   \<and> fst (remove_phone_command_body (args, book)) \<noteq> Inl IndexError
   \<and> fst (show_all_body book) \<noteq> Inl IndexError
   \<and> fst (birthdays_body today (args, book)) \<noteq> Inl IndexError
   \<and> show_phone ([], book) =
        (Inr (lit ''Invalid input. Please provide the correct number of arguments.''), book)
   \<and> delet ([], book) =
        (Inr (lit ''Invalid input. Please provide the correct number of arguments.''), book)
   \<and> show_birthday ([], book) =
        (Inr (lit ''Invalid input. Please provide the correct number of arguments.''), book)
   \<and> (length args \<noteq> 2 \<longrightarrow>
        add_contact (args, book) = (Inr (lit ''Give me name and phone please.''), book)
        \<and> remove_phone_command (args, book) =
            (Inr (lit ''Give me name and phone please.''), book))
   \<and> (length args \<noteq> 3 \<longrightarrow>
        change_contact (args, book) = (Inr (lit ''Give me name and phone please.''), book))"
proof -
  have key: "func x = (Inl KeyError, s) \<longrightarrow>
      input_error func x = (Inr (lit ''Contact not found.''), s)"
    by (simp add: input_error_def)
  have val: "func x = (Inl (ValueError msg), s) \<longrightarrow>
        input_error func x = (Inr (lit ''Give me name and phone please.''), s)"
    by (simp add: input_error_def)
  have idx: "func x = (Inl IndexError, s) \<longrightarrow>
        input_error func x =
          (Inr (lit ''Invalid input. Please provide the correct number of arguments.''), s)"
    by (simp add: input_error_def)
  have two: "length args \<noteq> 2 \<longrightarrow>
        add_contact (args, book) = (Inr (lit ''Give me name and phone please.''), book)
        \<and> remove_phone_command (args, book) =
            (Inr (lit ''Give me name and phone please.''), book)"
    by (simp add: add_contact_def remove_phone_command_def input_error_def unpack_error_def
        add_contact_arity remove_phone_command_arity)
  have three: "length args \<noteq> 3 \<longrightarrow>
        change_contact (args, book) = (Inr (lit ''Give me name and phone please.''), book)"
    by (simp add: change_contact_def input_error_def unpack_error_def change_contact_arity)
  have none: "show_phone ([], book) =
        (Inr (lit ''Invalid input. Please provide the correct number of arguments.''), book)"
    "delet ([], book) =
        (Inr (lit ''Invalid input. Please provide the correct number of arguments.''), book)"
    "show_birthday ([], book) =
        (Inr (lit ''Invalid input. Please provide the correct number of arguments.''), book)"
    by (simp_all add: show_phone_def show_phone_body_def delet_def delet_body_def
        show_birthday_def show_birthday_body_def input_error_def)
  note parts = key val idx show_phone_index delet_index show_birthday_index
    add_contact_no_index change_contact_no_index remove_phone_command_no_index
    show_all_no_index birthdays_no_index none two three
  show ?thesis
    by (intro conjI) (rule parts)+
qed

theorem input_error_replies_witness:
  "show_phone_body ([lit ''bob''], []) = (Inl KeyError, [])
   \<and> input_error show_phone_body ([lit ''bob''], []) = (Inr (lit ''Contact not found.''), [])
   \<and> show_phone_body ([], []) = (Inl IndexError, [])
   \<and> input_error show_phone_body ([], []) =
        (Inr (lit ''Invalid input. Please provide the correct number of arguments.''), [])
   \<and> fst (show_phone_body ([lit ''bob'', lit ''extra''], [])) \<noteq> Inl IndexError
   \<and> add_contact_body ([lit ''alice''], []) =
        (Inl (ValueError (lit ''wrong number of values to unpack'')), [])
   \<and> input_error add_contact_body ([lit ''alice''], []) =
        (Inr (lit ''Give me name and phone please.''), [])
   \<and> length [lit ''alice''] \<noteq> 2
   \<and> add_contact ([lit ''alice''], []) = (Inr (lit ''Give me name and phone please.''), [])
   \<and> length [lit ''alice'', lit ''1234567890''] \<noteq> 3
   \<and> change_contact ([lit ''alice'', lit ''1234567890''], []) =
        (Inr (lit ''Give me name and phone please.''), [])"
proof -
  have k: "show_phone_body ([lit ''bob''], []) = (Inl KeyError, [])"
    by (simp add: show_phone_body_def book_find_def)
  have i: "show_phone_body ([], []) = (Inl IndexError, [])"
    by (simp add: show_phone_body_def)
  have v: "add_contact_body ([lit ''alice''], []) =
        (Inl (ValueError (lit ''wrong number of values to unpack'')), [])"
    by (simp add: add_contact_body_def unpack_error_def)
  have l2: "length [lit ''alice''] \<noteq> 2" and l3: "length [lit ''alice'', lit ''1234567890''] \<noteq> 3"
    by simp_all
  have e: "[lit ''bob'', lit ''extra''] \<noteq> []"
    by simp
  note t1 = input_error_replies
      [where func = show_phone_body and x = "([lit ''bob''], [])" and s = "[]"
         and args = "[lit ''alice'']" and book = "[]"]
  note t2 = input_error_replies
      [where func = show_phone_body and x = "([], [])" and s = "[]"
         and args = "[lit ''alice'', lit ''1234567890'']" and book = "[]"]
  note t3 = input_error_replies
      [where func = add_contact_body and x = "([lit ''alice''], [])" and s = "[]"
         and msg = "lit ''wrong number of values to unpack''"
         and args = "[lit ''bob'', lit ''extra'']" and book = "[]"]
  have a: "input_error show_phone_body ([lit ''bob''], []) = (Inr (lit ''Contact not found.''), [])"
    by (rule t1 [THEN conjunct1, rule_format, OF k])
  have b: "input_error show_phone_body ([], []) =
        (Inr (lit ''Invalid input. Please provide the correct number of arguments.''), [])"
    by (rule t2 [THEN conjunct2, THEN conjunct2, THEN conjunct1, rule_format, OF i])
  have c: "input_error add_contact_body ([lit ''alice''], []) =
        (Inr (lit ''Give me name and phone please.''), [])"
    by (rule t3 [THEN conjunct2, THEN conjunct1, rule_format, OF v])
  have d: "fst (show_phone_body ([lit ''bob'', lit ''extra''], [])) \<noteq> Inl IndexError"
    using e t3 [THEN conjunct2, THEN conjunct2, THEN conjunct2, THEN conjunct1] by simp
  note tail1 = t1 [THEN conjunct2, THEN conjunct2, THEN conjunct2, THEN conjunct2,
      THEN conjunct2, THEN conjunct2, THEN conjunct2, THEN conjunct2, THEN conjunct2,
      THEN conjunct2, THEN conjunct2, THEN conjunct2, THEN conjunct2, THEN conjunct2]
  note tail2 = t2 [THEN conjunct2, THEN conjunct2, THEN conjunct2, THEN conjunct2,
      THEN conjunct2, THEN conjunct2, THEN conjunct2, THEN conjunct2, THEN conjunct2,
      THEN conjunct2, THEN conjunct2, THEN conjunct2, THEN conjunct2, THEN conjunct2]
  have f: "add_contact ([lit ''alice''], []) = (Inr (lit ''Give me name and phone please.''), [])"
    by (rule tail1 [THEN conjunct1, rule_format, OF l2, THEN conjunct1])
  have g: "change_contact ([lit ''alice'', lit ''1234567890''], []) =
        (Inr (lit ''Give me name and phone please.''), [])"
    by (rule tail2 [THEN conjunct2, rule_format, OF l3])
  note all = k a i b d v c l2 f l3 g
  show ?thesis
    by (intro conjI) (rule all)+
qed

text \<open>
  The claim as it was stated fails for the add command called with one argument: the
  reply is "Give me name and phone please.", not the reply for a wrong number of
  arguments.
\<close>

theorem add_contact_arity_counterexample:
  "length [lit ''alice''] \<noteq> 2
   \<and> fst (add_contact ([lit ''alice''], [])) = Inr (lit ''Give me name and phone please.'')
   \<and> fst (add_contact ([lit ''alice''], []))
        \<noteq> Inr (lit ''Invalid input. Please provide the correct number of arguments.'')"
  by (simp add: add_contact_def add_contact_body_def input_error_def unpack_error_def)

text \<open>
  Claim C6. The add and remove-phone commands catch a \<^verbatim>\<open>ValueError\<close> themselves and
  reply with its message. The change command does not: for a contact that holds both
  phones, changing the first into the second raises the "already exists"
  \<^verbatim>\<open>ValueError\<close> in \<open>edit_phone\<close>, which reaches the decorator, and the reply is
  "Give me name and phone please."; the add command on the same book replies with the
  "already exists" message.
\<close>

theorem change_contact_duplicate_reply:
  "change_contact ([lit ''alice'', lit ''1111111111'', lit ''2222222222''],
       [(lit ''alice'', \<lparr>name = lit ''alice'', phones = [lit ''1111111111'', lit ''2222222222''],
                     birthday = None\<rparr>)]) =
     (Inr (lit ''Give me name and phone please.''),
      [(lit ''alice'', \<lparr>name = lit ''alice'', phones = [lit ''1111111111'', lit ''2222222222''],
                    birthday = None\<rparr>)])
   \<and> add_contact ([lit ''alice'', lit ''2222222222''],
       [(lit ''alice'', \<lparr>name = lit ''alice'', phones = [lit ''1111111111'', lit ''2222222222''],
                     birthday = None\<rparr>)]) =
     (Inr (lit ''Phone number '2222222222' already exists.''),
      [(lit ''alice'', \<lparr>name = lit ''alice'', phones = [lit ''1111111111'', lit ''2222222222''],
                    birthday = None\<rparr>)])"
  by (simp add: change_contact_def change_contact_body_def add_contact_def add_contact_body_def
      input_error_def book_find_def edit_phone_def add_phone_def find_phone_def quoted_def)

end
